theory Spec2Isabelle
  imports Main
begin

section \<open>Location providers: values\<close>

text \<open>
  A JavaScript object is a reference together with its contents. The operator
  \<^verbatim>\<open>===\<close> on objects compares the references only; the contents of a Location
  (document URI and range) are opaque to the code and stay a type parameter.
\<close>

datatype 'a obj = Obj (ref: nat) (content: 'a)

definition same :: "'a obj \<Rightarrow> 'a obj \<Rightarrow> bool" where
  "same x y = (ref x = ref y)"

text \<open>What one provider emits: \<^verbatim>\<open>L | L[] | null\<close>.\<close>

datatype 'a result = Null | Single "'a obj" | Many "'a obj list"

text \<open>
  A member of a combined snapshot: the symbol \<^verbatim>\<open>INITIAL\<close> or a provider result.
\<close>

datatype 'a slot = INITIAL | Value "'a result"

type_synonym error = string

text \<open>The three notifications an observer of an rxjs Observable can receive.\<close>

datatype 'v notification = Next 'v | Error error | Complete

text \<open>
  Calling a provider either throws, or returns an Observable. The Observable is
  described by the notifications it delivers synchronously when it is subscribed to;
  what it delivers later arrives as events (see \<open>event\<close> below).
\<close>

datatype 'a invocation = Throws error | Returns "'a result notification list"

type_synonym ('p, 'a) provider = "'p \<Rightarrow> 'a invocation"

section \<open>The rxjs operators of the pipeline\<close>

text \<open>
  The operators come from the library rxjs (version 6), which is not part of the
  repository; each is modelled by what it does to the notifications it receives. A
  stream is the list of its notifications in the order they happen.

  The stateless operators \<^verbatim>\<open>filter\<close> and \<^verbatim>\<open>map\<close> act on the values and pass
  the terminal notifications through.
\<close>

fun filterN :: "('v \<Rightarrow> bool) \<Rightarrow> 'v notification list \<Rightarrow> 'v notification list" where
  "filterN P [] = []"
| "filterN P (Next v # ns) = (if P v then Next v # filterN P ns else filterN P ns)"
| "filterN P (Error e # ns) = Error e # filterN P ns"
| "filterN P (Complete # ns) = Complete # filterN P ns"

fun mapN :: "('v \<Rightarrow> 'w) \<Rightarrow> 'v notification list \<Rightarrow> 'w notification list" where
  "mapN f [] = []"
| "mapN f (Next v # ns) = Next (f v) # mapN f ns"
| "mapN f (Error e # ns) = Error e # mapN f ns"
| "mapN f (Complete # ns) = Complete # mapN f ns"

text \<open>
  \<^verbatim>\<open>defaultIfEmpty(d)\<close>: when the source completes without having emitted a value,
  \<open>d\<close> is emitted before the completion. The flag is the operator's \<^verbatim>\<open>isEmpty\<close>.
\<close>

fun defaultIfEmpty_from :: "bool \<Rightarrow> 'v \<Rightarrow> 'v notification list \<Rightarrow> 'v notification list" where
  "defaultIfEmpty_from isEmpty d [] = []"
| "defaultIfEmpty_from isEmpty d (Next v # ns) = Next v # defaultIfEmpty_from False d ns"
| "defaultIfEmpty_from isEmpty d (Error e # ns) = Error e # defaultIfEmpty_from isEmpty d ns"
| "defaultIfEmpty_from isEmpty d (Complete # ns) =
     (if isEmpty then [Next d, Complete] else [Complete]) @ defaultIfEmpty_from isEmpty d ns"

definition defaultIfEmpty :: "'v \<Rightarrow> 'v notification list \<Rightarrow> 'v notification list" where
  "defaultIfEmpty d ns = defaultIfEmpty_from True d ns"

text \<open>
  \<^verbatim>\<open>distinctUntilChanged(compare)\<close>: the operator keeps the last value it emitted as
  its \<^verbatim>\<open>key\<close> (\<open>None\<close> while \<^verbatim>\<open>hasKey\<close> is false) and drops a value for which
  \<^verbatim>\<open>compare(key, value)\<close> holds.
\<close>

fun distinctUntilChanged_from ::
  "('v \<Rightarrow> 'v \<Rightarrow> bool) \<Rightarrow> 'v option \<Rightarrow> 'v notification list \<Rightarrow> 'v notification list" where
  "distinctUntilChanged_from compare key [] = []"
| "distinctUntilChanged_from compare key (Next v # ns) =
     (case key of
        None \<Rightarrow> Next v # distinctUntilChanged_from compare (Some v) ns
      | Some k \<Rightarrow>
          if compare k v then distinctUntilChanged_from compare (Some k) ns
          else Next v # distinctUntilChanged_from compare (Some v) ns)"
| "distinctUntilChanged_from compare key (Error e # ns) =
     Error e # distinctUntilChanged_from compare key ns"
| "distinctUntilChanged_from compare key (Complete # ns) =
     Complete # distinctUntilChanged_from compare key ns"

definition distinctUntilChanged ::
  "('v \<Rightarrow> 'v \<Rightarrow> bool) \<Rightarrow> 'v notification list \<Rightarrow> 'v notification list" where
  "distinctUntilChanged compare ns = distinctUntilChanged_from compare None ns"

subsection \<open>combineLatest over the wrapped provider streams\<close>

text \<open>
  The subscriber of \<^verbatim>\<open>combineLatest(array)\<close>: \<open>vals\<close> (the array \<^verbatim>\<open>values\<close> of
  rxjs) holds the latest value of each source (\<open>None\<close> is rxjs's \<^verbatim>\<open>NONE\<close>, no value
  yet), \<open>active\<close> counts the sources that have not completed, and \<open>opened\<close> tells
  which sources are subscribed to and have not terminated. \<open>sid\<close> numbers the
  provider list the session belongs to (the index switchMap passes to its
  projection).
\<close>

record 'a session =
  sid :: nat
  vals :: "'a slot option list"
  opened :: "bool list"
  active :: nat

text \<open>
  \<^verbatim>\<open>notifyNext\<close>: store the value; emit a copy of \<open>vals\<close> once no source is left
  without a value.
\<close>

definition notifyNext ::
  "nat \<Rightarrow> 'a slot \<Rightarrow> 'a session \<Rightarrow> 'a session \<times> 'a slot list notification list" where
  "notifyNext i v s =
     (let vs = (vals s)[i := Some v] in
      (s\<lparr>vals := vs\<rparr>,
       case those vs of None \<Rightarrow> [] | Some snapshot \<Rightarrow> [Next snapshot]))"

text \<open>\<^verbatim>\<open>notifyComplete\<close>: the result completes when the last source has completed.\<close>

definition notifyComplete ::
  "nat \<Rightarrow> 'a session \<Rightarrow> 'a session \<times> 'a slot list notification list" where
  "notifyComplete i s =
     (let s' = s\<lparr>opened := (opened s)[i := False], active := active s - 1\<rparr> in
      (s', if active s' = 0 then [Complete] else []))"

text \<open>
  One notification of provider \<open>i\<close>'s Observable, seen through
  \<^verbatim>\<open>startWith(INITIAL), catchError(err => { console.error(err); return [null] })\<close>:
  a value is passed on, an error is logged and replaced by the array \<^verbatim>\<open>[null]\<close>
  (the value null, then completion), a completion is passed on. The second component
  of the result is what was written to the console.
\<close>

fun source_notify ::
  "nat \<Rightarrow> 'a result notification \<Rightarrow> 'a session \<Rightarrow>
     'a session \<times> error list \<times> 'a slot list notification list" where
  "source_notify i (Next v) s =
     (let (s1, out1) = notifyNext i (Value v) s in (s1, [], out1))"
| "source_notify i (Error e) s =
     (let (s1, out1) = notifyNext i (Value Null) s;
          (s2, out2) = notifyComplete i s1
      in (s2, [e], out1 @ out2))"
| "source_notify i Complete s =
     (let (s1, out1) = notifyComplete i s in (s1, [], out1))"

text \<open>A source that is not subscribed to, or has terminated, delivers nothing.\<close>

definition source_event ::
  "nat \<Rightarrow> 'a result notification \<Rightarrow> 'a session \<Rightarrow>
     'a session \<times> error list \<times> 'a slot list notification list" where
  "source_event i n s =
     (if i < length (opened s) \<and> opened s ! i then source_notify i n s else (s, [], []))"

fun source_events ::
  "nat \<Rightarrow> 'a result notification list \<Rightarrow> 'a session \<Rightarrow>
     'a session \<times> error list \<times> 'a slot list notification list" where
  "source_events i [] s = (s, [], [])"
| "source_events i (n # ns) s =
     (let (s1, log1, out1) = source_event i n s;
          (s2, log2, out2) = source_events i ns s1
      in (s2, log1 @ log2, out1 @ out2))"

text \<open>
  Subscribing to wrapped source \<open>i\<close>: \<^verbatim>\<open>startWith\<close> delivers \<^verbatim>\<open>INITIAL\<close> at once,
  then the provider's Observable is subscribed to and delivers its synchronous
  notifications.
\<close>

definition subscribe_source ::
  "nat \<Rightarrow> 'a result notification list \<Rightarrow> 'a session \<Rightarrow>
     'a session \<times> error list \<times> 'a slot list notification list" where
  "subscribe_source i sync s =
     (let (s1, out1) = notifyNext i INITIAL (s\<lparr>opened := (opened s)[i := True]\<rparr>);
          (s2, log2, out2) = source_events i sync s1
      in (s2, log2, out1 @ out2))"

text \<open>combineLatest subscribes to its sources one after the other, in array order.\<close>

fun subscribe_sources ::
  "nat \<Rightarrow> 'a result notification list list \<Rightarrow> 'a session \<Rightarrow>
     'a session \<times> error list \<times> 'a slot list notification list" where
  "subscribe_sources i [] s = (s, [], [])"
| "subscribe_sources i (sync # rest) s =
     (let (s1, log1, out1) = subscribe_source i sync s;
          (s2, log2, out2) = subscribe_sources (Suc i) rest s1
      in (s2, log1 @ log2, out1 @ out2))"

definition combineLatest ::
  "nat \<Rightarrow> 'a result notification list list \<Rightarrow>
     'a session \<times> error list \<times> 'a slot list notification list" where
  "combineLatest k streams =
     subscribe_sources 0 streams
       \<lparr>sid = k, vals = replicate (length streams) None,
        opened = replicate (length streams) False, active = length streams\<rparr>"

subsection \<open>switchMap over the provider lists\<close>

text \<open>
  What one subscription to \<^verbatim>\<open>getLocations(providers, params)\<close> reacts to: the
  notifications of the \<^verbatim>\<open>providers\<close> Observable, and the notifications that the
  Observable returned by provider \<open>i\<close> of provider list number \<open>k\<close> delivers after
  it was subscribed to (\<open>ProviderNotify k i n\<close>).
\<close>

datatype ('p, 'a) event =
    ProvidersNext "('p, 'a) provider list"
  | ProvidersError error
  | ProvidersComplete
  | ProviderNotify nat nat "'a result notification"

text \<open>
  The subscriber of switchMap: \<open>index\<close> counts the provider lists received,
  \<open>innerSubscription\<close> is the subscription to the current inner Observable,
  \<open>isStopped\<close> tells that the \<^verbatim>\<open>providers\<close> Observable has terminated. \<open>closed\<close>
  tells that the result has terminated, which unsubscribes the whole chain.
  \<open>console\<close> is what \<^verbatim>\<open>console.error\<close> has printed and \<open>calls\<close> counts the
  provider calls made.
\<close>

record 'a state =
  index :: nat
  innerSubscription :: "'a session option"
  isStopped :: bool
  closed :: bool
  console :: "error list"
  calls :: nat

definition init :: "'a state" where
  "init = \<lparr>index = 0, innerSubscription = None, isStopped = False, closed = False,
           console = [], calls = 0\<rparr>"

text \<open>
  \<^verbatim>\<open>providers.map(provider => from(provider(params)).pipe(...))\<close> calls the
  providers in order, before anything is subscribed to. A throwing call ends the
  \<^verbatim>\<open>map\<close>: the providers after it are not called. The first component counts the
  calls.
\<close>

fun invoke_all ::
  "'p \<Rightarrow> ('p, 'a) provider list \<Rightarrow> nat \<times> (error + 'a result notification list list)" where
  "invoke_all params [] = (0, Inr [])"
| "invoke_all params (provider # rest) =
     (case provider params of
        Throws e \<Rightarrow> (1, Inl e)
      | Returns sync \<Rightarrow>
          (case invoke_all params rest of
             (n, Inl e) \<Rightarrow> (Suc n, Inl e)
           | (n, Inr streams) \<Rightarrow> (Suc n, Inr (sync # streams))))"

text \<open>
  A provider list arrives. The projection runs first: for the empty list it returns
  the array \<^verbatim>\<open>[null]\<close>; otherwise it calls the providers and builds the
  combineLatest. An error thrown inside the projection is sent to the result by
  switchMap. Otherwise the previous inner subscription is unsubscribed and the new
  inner Observable is subscribed to.
\<close>

definition switchMap_next ::
  "'p \<Rightarrow> ('p, 'a) provider list \<Rightarrow> 'a state \<Rightarrow>
     'a state \<times> 'a slot list option notification list" where
  "switchMap_next params providers st =
     (if providers = [] then
        (st\<lparr>index := Suc (index st), innerSubscription := None\<rparr>, [Next None])
      else
        case invoke_all params providers of
          (n, Inl e) \<Rightarrow>
            (st\<lparr>index := Suc (index st), innerSubscription := None, closed := True,
                calls := calls st + n\<rparr>,
             [Error e])
        | (n, Inr streams) \<Rightarrow>
            (let (s, logged, out) = combineLatest (index st) streams in
             (st\<lparr>index := Suc (index st),
                 innerSubscription := (if Complete \<in> set out then None else Some s),
                 console := console st @ logged,
                 calls := calls st + n\<rparr>,
              mapN Some (removeAll Complete out))))"

definition switchMap_error :: "error \<Rightarrow> 'a state \<Rightarrow> 'a state \<times> 'a slot list option notification list" where
  "switchMap_error e st =
     (st\<lparr>innerSubscription := None, isStopped := True, closed := True\<rparr>, [Error e])"

text \<open>
  The \<^verbatim>\<open>providers\<close> Observable completes: the result completes at once when no
  inner subscription is open, and with the inner Observable otherwise.
\<close>

definition switchMap_complete :: "'a state \<Rightarrow> 'a state \<times> 'a slot list option notification list" where
  "switchMap_complete st =
     (case innerSubscription st of
        None \<Rightarrow> (st\<lparr>isStopped := True, closed := True\<rparr>, [Complete])
      | Some s \<Rightarrow> (st\<lparr>isStopped := True\<rparr>, []))"

text \<open>
  A provider's Observable delivers a notification. It reaches combineLatest only
  through the current inner subscription: the subscriptions of an earlier provider
  list were unsubscribed when the list was replaced.
\<close>

definition switchMap_inner ::
  "nat \<Rightarrow> nat \<Rightarrow> 'a result notification \<Rightarrow> 'a state \<Rightarrow>
     'a state \<times> 'a slot list option notification list" where
  "switchMap_inner k i n st =
     (case innerSubscription st of
        None \<Rightarrow> (st, [])
      | Some s \<Rightarrow>
          if sid s \<noteq> k then (st, [])
          else
            (let (s', logged, out) = source_event i n s in
             if Complete \<in> set out then
               (st\<lparr>innerSubscription := None, closed := isStopped st,
                   console := console st @ logged\<rparr>,
                mapN Some (removeAll Complete out) @ (if isStopped st then [Complete] else []))
             else
               (st\<lparr>innerSubscription := Some s', console := console st @ logged\<rparr>,
                mapN Some out)))"

fun step ::
  "'p \<Rightarrow> 'a state \<Rightarrow> ('p, 'a) event \<Rightarrow> 'a state \<times> 'a slot list option notification list" where
  "step params st (ProvidersNext providers) =
     (if closed st \<or> isStopped st then (st, []) else switchMap_next params providers st)"
| "step params st (ProvidersError e) =
     (if closed st \<or> isStopped st then (st, []) else switchMap_error e st)"
| "step params st ProvidersComplete =
     (if closed st \<or> isStopped st then (st, []) else switchMap_complete st)"
| "step params st (ProviderNotify k i n) =
     (if closed st then (st, []) else switchMap_inner k i n st)"

fun run ::
  "'p \<Rightarrow> 'a state \<Rightarrow> ('p, 'a) event list \<Rightarrow>
     'a state \<times> 'a slot list option notification list" where
  "run params st [] = (st, [])"
| "run params st (e # es) =
     (let (st1, out1) = step params st e;
          (st2, out2) = run params st1 es
      in (st2, out1 @ out2))"

definition switchMap ::
  "'p \<Rightarrow> ('p, 'a) event list \<Rightarrow> 'a slot list option notification list" where
  "switchMap params schedule = snd (run params init schedule)"

section \<open>getLocations and getLocation\<close>

text \<open>
  The predicate of \<^verbatim>\<open>filter\<close>:
  \<^verbatim>\<open>results === null || !results.every(result => result === INITIAL)\<close>.
\<close>

definition has_result :: "'a slot list option \<Rightarrow> bool" where
  "has_result results =
     (case results of None \<Rightarrow> True | Some rs \<Rightarrow> \<not> list_all (\<lambda>result. result = INITIAL) rs)"

text \<open>
  The first \<^verbatim>\<open>map\<close>:
  \<^verbatim>\<open>results && results.filter(result => result !== INITIAL)\<close>.
\<close>

fun not_initial :: "'a slot list \<Rightarrow> 'a result list" where
  "not_initial [] = []"
| "not_initial (INITIAL # rs) = not_initial rs"
| "not_initial (Value r # rs) = r # not_initial rs"

definition drop_initial :: "'a slot list option \<Rightarrow> 'a result list option" where
  "drop_initial results = (case results of None \<Rightarrow> None | Some rs \<Rightarrow> Some (not_initial rs))"

text \<open>
  Modelled from the spec: \<^verbatim>\<open>flattenAndCompact\<close> is imported from \<^verbatim>\<open>./util\<close>, which
  is not among the sources. The specification has it flatten the members (each null,
  a single Location or an array of Locations) into one array, discarding nulls and
  keeping the order, and normalise an empty flattened array to null; null stays null.
\<close>

fun members :: "'a result \<Rightarrow> 'a obj list" where
  "members Null = []"
| "members (Single l) = [l]"
| "members (Many ls) = ls"

definition flattenAndCompact :: "'a result list option \<Rightarrow> 'a obj list option" where
  "flattenAndCompact value =
     (case value of
        None \<Rightarrow> None
      | Some rs \<Rightarrow>
          (let merged = concat (map members rs) in
           if merged = [] then None else Some merged))"

text \<open>
  The comparator given to \<^verbatim>\<open>distinctUntilChanged\<close>:
  \<^verbatim>\<open>(a === null && b === null) ||
   (a !== null && b !== null && a.length === b.length && a.every((e, i) => e === b[i]))\<close>.
\<close>

definition locations_equal :: "'a obj list option \<Rightarrow> 'a obj list option \<Rightarrow> bool" where
  "locations_equal a b =
     (case (a, b) of
        (None, None) \<Rightarrow> True
      | (Some xs, Some ys) \<Rightarrow>
          length xs = length ys \<and>
          list_all (\<lambda>(e, i). same e (ys ! i)) (zip xs [0..<length xs])
      | _ \<Rightarrow> False)"

text \<open>
  The pipeline of \<^verbatim>\<open>getLocations\<close>, operator by operator: \<open>results_of\<close> is what
  follows switchMap. \<open>schedule\<close> is the sequence of events the subscription meets,
  in the order they happen.
\<close>

definition results_of ::
  "'a slot list option notification list \<Rightarrow> 'a obj list option notification list" where
  "results_of snapshots =
     distinctUntilChanged locations_equal
       (defaultIfEmpty None
         (mapN flattenAndCompact
           (mapN drop_initial
             (filterN has_result snapshots))))"

definition getLocations ::
  "'p \<Rightarrow> ('p, 'a) event list \<Rightarrow> 'a obj list option notification list" where
  "getLocations params schedule = results_of (switchMap params schedule)"

text \<open>The number of provider calls a subscription has made after a schedule.\<close>

definition invocations :: "'p \<Rightarrow> ('p, 'a) event list \<Rightarrow> nat" where
  "invocations params schedule = calls (fst (run params init schedule))"

text \<open>
  \<^verbatim>\<open>getLocation\<close> maps the results of \<^verbatim>\<open>getLocations\<close>:
  \<^verbatim>\<open>results !== null && results.length === 1 ? results[0] : results\<close>.
\<close>

definition unwrap_single :: "'a obj list option \<Rightarrow> 'a result" where
  "unwrap_single results =
     (case results of
        None \<Rightarrow> Null
      | Some rs \<Rightarrow> if length rs = 1 then Single (rs ! 0) else Many rs)"

definition getLocation :: "'p \<Rightarrow> ('p, 'a) event list \<Rightarrow> 'a result notification list" where
  "getLocation params schedule = mapN unwrap_single (getLocations params schedule)"

text \<open>The values a stream of notifications carries.\<close>

fun values_of :: "'v notification list \<Rightarrow> 'v list" where
  "values_of [] = []"
| "values_of (Next v # ns) = v # values_of ns"
| "values_of (Error e # ns) = values_of ns"
| "values_of (Complete # ns) = values_of ns"

section \<open>The registry: getLocationsAndProviders\<close>

record 'd textDocumentPositionParams =
  textDocument :: 'd
  position :: "nat \<times> nat"

text \<open>
  The parameters \<^verbatim>\<open>P\<close> given to the providers: the document position, extended by
  the caller's \<^verbatim>\<open>extraParams\<close> (which may be undefined).
\<close>

record ('d, 'x) params = "'d textDocumentPositionParams" +
  extraParams :: "'x option"

record 's textDocumentRegistrationOptions =
  documentSelector :: 's

record ('s, 'p, 'a) entry =
  registrationOptions :: "'s textDocumentRegistrationOptions"
  provider :: "('p, 'a) provider"

text \<open>
  One emission of \<^verbatim>\<open>getLocationsAndProviders\<close>. The field \<open>locations\<close> is null or
  a cold Observable: nothing runs until it is subscribed to, and then it answers the
  events its subscription meets.
\<close>

record ('p, 'a) locationsAndProviders =
  locations :: "(('p, 'a) event list \<Rightarrow> 'a obj list option notification list) option"
  hasProviders :: bool

text \<open>\<^verbatim>\<open>of(providers)\<close> delivers the list and completes, synchronously.\<close>

definition of_providers :: "('p, 'a) provider list \<Rightarrow> ('p, 'a) event list" where
  "of_providers providers = [ProvidersNext providers, ProvidersComplete]"

text \<open>
  The function given to \<^verbatim>\<open>map\<close> in \<^verbatim>\<open>getLocationsAndProviders\<close>. The helpers
  \<^verbatim>\<open>modelToTextDocumentPositionParams\<close> and \<^verbatim>\<open>match\<close> are imported from modules
  that are not among the sources and are parameters here.
\<close>

definition compose ::
  "('m \<Rightarrow> 'd textDocumentPositionParams option) \<Rightarrow> ('s \<Rightarrow> 'd \<Rightarrow> bool) \<Rightarrow> 'x option \<Rightarrow>
     ('s, ('d, 'x) params, 'a) entry list \<times> 'm \<Rightarrow> (('d, 'x) params, 'a) locationsAndProviders" where
  "compose modelToTextDocumentPositionParams match extra = (\<lambda>(entries, visibleViewComponents).
     case modelToTextDocumentPositionParams visibleViewComponents of
       None \<Rightarrow> \<lparr>locations = None, hasProviders = False\<rparr>
     | Some params \<Rightarrow>
         (let providers =
                map provider
                  (filter (\<lambda>e. match (documentSelector (registrationOptions e)) (textDocument params))
                     entries)
          in \<lparr>locations =
                 Some (\<lambda>schedule.
                   getLocations
                     \<lparr>textDocument = textDocument params, position = position params,
                      extraParams = extra\<rparr>
                     (of_providers providers @ schedule)),
               hasProviders = (length providers > 0)\<rparr>))"

text \<open>
  \<^verbatim>\<open>combineLatest(this.entries, model)\<close>: two sources, an event is a notification of
  the first (\<open>Inl\<close>) or of the second (\<open>Inr\<close>). A pair is emitted at every value once
  both sources have one; an error ends the result; the result completes when both
  sources have completed. \<open>dx\<close> and \<open>dy\<close> tell which source has completed.
\<close>

fun combineLatest2_from ::
  "'x option \<Rightarrow> 'y option \<Rightarrow> bool \<Rightarrow> bool \<Rightarrow> ('x notification + 'y notification) list \<Rightarrow>
     ('x \<times> 'y) notification list" where
  "combineLatest2_from x y dx dy [] = []"
| "combineLatest2_from x y dx dy (Inl (Next v) # es) =
     (if dx then combineLatest2_from x y dx dy es
      else (case y of None \<Rightarrow> [] | Some w \<Rightarrow> [Next (v, w)]) @
           combineLatest2_from (Some v) y dx dy es)"
| "combineLatest2_from x y dx dy (Inr (Next w) # es) =
     (if dy then combineLatest2_from x y dx dy es
      else (case x of None \<Rightarrow> [] | Some v \<Rightarrow> [Next (v, w)]) @
           combineLatest2_from x (Some w) dx dy es)"
| "combineLatest2_from x y dx dy (Inl (Error e) # es) =
     (if dx then combineLatest2_from x y dx dy es else [Error e])"
| "combineLatest2_from x y dx dy (Inr (Error e) # es) =
     (if dy then combineLatest2_from x y dx dy es else [Error e])"
| "combineLatest2_from x y dx dy (Inl Complete # es) =
     (if dx then combineLatest2_from x y dx dy es
      else if dy then [Complete] else combineLatest2_from x y True dy es)"
| "combineLatest2_from x y dx dy (Inr Complete # es) =
     (if dy then combineLatest2_from x y dx dy es
      else if dx then [Complete] else combineLatest2_from x y dx True es)"

definition combineLatest2 ::
  "('x notification + 'y notification) list \<Rightarrow> ('x \<times> 'y) notification list" where
  "combineLatest2 es = combineLatest2_from None None False False es"

definition getLocationsAndProviders ::
  "('m \<Rightarrow> 'd textDocumentPositionParams option) \<Rightarrow> ('s \<Rightarrow> 'd \<Rightarrow> bool) \<Rightarrow> 'x option \<Rightarrow>
     (('s, ('d, 'x) params, 'a) entry list notification + 'm notification) list \<Rightarrow>
     (('d, 'x) params, 'a) locationsAndProviders notification list" where
  "getLocationsAndProviders modelToTextDocumentPositionParams match extra es =
     mapN (compose modelToTextDocumentPositionParams match extra) (combineLatest2 es)"

section \<open>confdb: the critical and site configuration\<close>

text \<open>
  The identifiers are produced by the database and only compared by the Go code, so
  they are integers here. Times are clock readings.
\<close>

type_synonym configType = string

definition typeCritical :: configType where
  "typeCritical = ''critical''"

definition typeSite :: configType where
  "typeSite = ''site''"

record Config =
  ID :: int
  Type :: string
  Contents :: string
  CreatedAt :: nat
  UpdatedAt :: nat

text \<open>
  The database: the rows of the table \<^verbatim>\<open>critical_and_site_config\<close> in insertion
  order, the next value of the \<^verbatim>\<open>id\<close> sequence, the clock, and for each database
  operation still to come whether it fails (an exhausted list means no failure).
\<close>

record db =
  rows :: "Config list"
  nextID :: int
  clock :: nat
  faults :: "bool list"

datatype err = InvalidJSON string | DatabaseError

text \<open>
  The package variables set by \<^verbatim>\<open>SetDefaultConfigs\<close>, and \<^verbatim>\<open>jsonx.Parse\<close> of the
  external library \<^verbatim>\<open>jsonx\<close>, of which only the number of syntax errors is used.
\<close>

record env =
  jsonx_Parse :: "string \<Rightarrow> nat"
  defaultCriticalConfig :: string
  defaultSiteConfig :: string

text \<open>Whether the next database operation fails; the flag is consumed.\<close>

definition fault :: "db \<Rightarrow> bool \<times> db" where
  "fault d = (case faults d of [] \<Rightarrow> False | f # _ \<Rightarrow> f, d\<lparr>faults := tl (faults d)\<rparr>)"

text \<open>
  \<^verbatim>\<open>getLatest\<close>: the query
  \<^verbatim>\<open>SELECT ... WHERE type=%s ORDER BY id DESC LIMIT 1\<close> and \<^verbatim>\<open>parseQueryRows\<close>
  may each fail; no row is reported as \<^verbatim>\<open>nil, nil\<close>.
\<close>

definition query_latest :: "configType \<Rightarrow> Config list \<Rightarrow> Config list" where
  "query_latest configType table =
     take 1 (rev (sort_key ID (filter (\<lambda>r. Type r = configType) table)))"

definition getLatest :: "configType \<Rightarrow> db \<Rightarrow> (err + Config option) \<times> db" where
  "getLatest configType d =
     (case fault d of
        (True, d1) \<Rightarrow> (Inl DatabaseError, d1)
      | (False, d1) \<Rightarrow>
          (case fault d1 of
             (True, d2) \<Rightarrow> (Inl DatabaseError, d2)
           | (False, d2) \<Rightarrow>
               (let versions = query_latest configType (rows d2) in
                if length versions \<noteq> 1 then (Inr None, d2)
                else (Inr (Some (versions ! 0)), d2))))"

text \<open>
  \<^verbatim>\<open>INSERT INTO critical_and_site_config(type, contents) VALUES($1, $2)
   RETURNING id, created_at, updated_at\<close>, scanned into \<^verbatim>\<open>new\<close>, whose \<^verbatim>\<open>Type\<close>
  field the Go code leaves empty.
\<close>

definition insert_config :: "configType \<Rightarrow> string \<Rightarrow> db \<Rightarrow> (err + Config) \<times> db" where
  "insert_config configType contents d =
     (case fault d of
        (True, d1) \<Rightarrow> (Inl DatabaseError, d1)
      | (False, d1) \<Rightarrow>
          (Inr \<lparr>ID = nextID d1, Type = [], Contents = contents,
                CreatedAt = clock d1, UpdatedAt = clock d1\<rparr>,
           d1\<lparr>rows := rows d1 @
                  [\<lparr>ID = nextID d1, Type = configType, Contents = contents,
                    CreatedAt = clock d1, UpdatedAt = clock d1\<rparr>],
               nextID := nextID d1 + 1\<rparr>))"

definition createIfUpToDate ::
  "env \<Rightarrow> configType \<Rightarrow> int option \<Rightarrow> string \<Rightarrow> db \<Rightarrow> (err + Config) \<times> db" where
  "createIfUpToDate e configType lastID contents d =
     (if jsonx_Parse e contents > 0 then (Inl (InvalidJSON contents), d)
      else
        case getLatest configType d of
          (Inl er, d1) \<Rightarrow> (Inl er, d1)
        | (Inr latest, d1) \<Rightarrow>
            (let creatorIsUpToDate =
                   (case latest of
                      None \<Rightarrow> False
                    | Some l \<Rightarrow> (case lastID of None \<Rightarrow> False | Some i \<Rightarrow> ID l = i))
             in case latest of
                  None \<Rightarrow> insert_config configType contents d1
                | Some l \<Rightarrow>
                    if creatorIsUpToDate then insert_config configType contents d1
                    else (Inr l, d1)))"

definition addDefault ::
  "env \<Rightarrow> configType \<Rightarrow> string \<Rightarrow> db \<Rightarrow> (err + int option) \<times> db" where
  "addDefault e configType contents d =
     (case getLatest configType d of
        (Inl er, d1) \<Rightarrow> (Inl er, d1)
      | (Inr (Some l), d1) \<Rightarrow> (Inr None, d1)
      | (Inr None, d1) \<Rightarrow>
          (case createIfUpToDate e configType None contents d1 of
             (Inl er, d2) \<Rightarrow> (Inl er, d2)
           | (Inr latest, d2) \<Rightarrow> (Inr (Some (ID latest)), d2)))"

text \<open>
  \<^verbatim>\<open>newTransaction\<close>: \<^verbatim>\<open>BeginTx\<close> may fail. The closure \<^verbatim>\<open>done\<close> reads the
  variable \<^verbatim>\<open>err\<close> of \<^verbatim>\<open>newTransaction\<close> itself, which is nil once the transaction
  has begun, so \<^verbatim>\<open>done\<close> always commits, and it keeps the outcome of the commit to
  itself. A failed commit leaves the table as it was when the transaction began.
\<close>

definition newTransaction :: "db \<Rightarrow> (err + Config list) \<times> db" where
  "newTransaction d =
     (case fault d of
        (True, d1) \<Rightarrow> (Inl DatabaseError, d1)
      | (False, d1) \<Rightarrow> (Inr (rows d1), d1))"

definition done_tx :: "Config list \<Rightarrow> 'r \<times> db \<Rightarrow> 'r \<times> db" where
  "done_tx begun = (\<lambda>(r, d).
     case fault d of
       (True, d1) \<Rightarrow> (r, d1\<lparr>rows := begun\<rparr>)
     | (False, d1) \<Rightarrow> (r, d1))"

definition SiteGetLatest :: "env \<Rightarrow> db \<Rightarrow> (err + Config option) \<times> db" where
  "SiteGetLatest e d =
     (case newTransaction d of
        (Inl er, d1) \<Rightarrow> (Inl er, d1)
      | (Inr begun, d1) \<Rightarrow>
          done_tx begun
            (case addDefault e typeSite (defaultSiteConfig e) d1 of
               (Inl er, d2) \<Rightarrow> (Inl er, d2)
             | (Inr newLastID, d2) \<Rightarrow> getLatest typeSite d2))"

definition CriticalGetLatest :: "env \<Rightarrow> db \<Rightarrow> (err + Config option) \<times> db" where
  "CriticalGetLatest e d =
     (case newTransaction d of
        (Inl er, d1) \<Rightarrow> (Inl er, d1)
      | (Inr begun, d1) \<Rightarrow>
          done_tx begun
            (case addDefault e typeCritical (defaultCriticalConfig e) d1 of
               (Inl er, d2) \<Rightarrow> (Inl er, d2)
             | (Inr newLastID, d2) \<Rightarrow> getLatest typeCritical d2))"

definition SiteCreateIfUpToDate ::
  "env \<Rightarrow> int option \<Rightarrow> string \<Rightarrow> db \<Rightarrow> (err + Config) \<times> db" where
  "SiteCreateIfUpToDate e lastID contents d =
     (case newTransaction d of
        (Inl er, d1) \<Rightarrow> (Inl er, d1)
      | (Inr begun, d1) \<Rightarrow>
          done_tx begun
            (case addDefault e typeSite (defaultSiteConfig e) d1 of
               (Inl er, d2) \<Rightarrow> (Inl er, d2)
             | (Inr newLastID, d2) \<Rightarrow>
                 createIfUpToDate e typeSite
                   (case newLastID of None \<Rightarrow> lastID | Some i \<Rightarrow> Some i) contents d2))"

definition CriticalCreateIfUpToDate ::
  "env \<Rightarrow> int option \<Rightarrow> string \<Rightarrow> db \<Rightarrow> (err + Config) \<times> db" where
  "CriticalCreateIfUpToDate e lastID contents d =
     (case newTransaction d of
        (Inl er, d1) \<Rightarrow> (Inl er, d1)
      | (Inr begun, d1) \<Rightarrow>
          done_tx begun
            (case addDefault e typeCritical (defaultCriticalConfig e) d1 of
               (Inl er, d2) \<Rightarrow> (Inl er, d2)
             | (Inr newLastID, d2) \<Rightarrow>
                 createIfUpToDate e typeCritical
                   (case newLastID of None \<Rightarrow> lastID | Some i \<Rightarrow> Some i) contents d2))"

text \<open>
  The site and the critical functions differ in the type and the default only; the
  proofs below go through their common shape.
\<close>

definition get_latest_of ::
  "env \<Rightarrow> configType \<Rightarrow> string \<Rightarrow> db \<Rightarrow> (err + Config option) \<times> db" where
  "get_latest_of e configType contents d =
     (case newTransaction d of
        (Inl er, d1) \<Rightarrow> (Inl er, d1)
      | (Inr begun, d1) \<Rightarrow>
          done_tx begun
            (case addDefault e configType contents d1 of
               (Inl er, d2) \<Rightarrow> (Inl er, d2)
             | (Inr newLastID, d2) \<Rightarrow> getLatest configType d2))"

definition create_if_up_to_date_of ::
  "env \<Rightarrow> configType \<Rightarrow> string \<Rightarrow> int option \<Rightarrow> string \<Rightarrow> db \<Rightarrow> (err + Config) \<times> db" where
  "create_if_up_to_date_of e configType defaultContents lastID contents d =
     (case newTransaction d of
        (Inl er, d1) \<Rightarrow> (Inl er, d1)
      | (Inr begun, d1) \<Rightarrow>
          done_tx begun
            (case addDefault e configType defaultContents d1 of
               (Inl er, d2) \<Rightarrow> (Inl er, d2)
             | (Inr newLastID, d2) \<Rightarrow>
                 createIfUpToDate e configType
                   (case newLastID of None \<Rightarrow> lastID | Some i \<Rightarrow> Some i) contents d2))"

section \<open>The specification's words\<close>

text \<open>
  What one member of a combined snapshot contributes to the flattened array according
  to the specification: nothing while it is the Sentinel, nothing when it is null, the
  Location itself, or the Locations of the array in their order.
\<close>

fun contribution :: "'a slot \<Rightarrow> 'a obj list" where
  "contribution INITIAL = []"
| "contribution (Value Null) = []"
| "contribution (Value (Single l)) = [l]"
| "contribution (Value (Many ls)) = ls"

text \<open>
  The dedup law of the specification: both null, or both arrays of equal length whose
  elements are pairwise identical by reference at the same index.
\<close>

definition shallow_equal :: "'a obj list option \<Rightarrow> 'a obj list option \<Rightarrow> bool" where
  "shallow_equal a b =
     (case a of
        None \<Rightarrow> b = None
      | Some xs \<Rightarrow>
          (case b of
             None \<Rightarrow> False
           | Some ys \<Rightarrow> length xs = length ys \<and> list_all2 (\<lambda>x y. ref x = ref y) xs ys))"

text \<open>
  What the specification makes of a combined snapshot in which some provider has
  spoken: the flattened array of its members' Locations, null when that array is
  empty.
\<close>

definition normalized :: "'a slot list \<Rightarrow> 'a obj list option" where
  "normalized rs =
     (if concat (map contribution rs) = [] then None else Some (concat (map contribution rs)))"

text \<open>
  The row the specification calls the latest config of a type: the row of that type
  whose id is greater than the id of every other row of the type.
\<close>

definition is_latest :: "string \<Rightarrow> Config list \<Rightarrow> Config \<Rightarrow> bool" where
  "is_latest t table l =
     (l \<in> set table \<and> Type l = t \<and>
      list_all (\<lambda>r. r = l \<or> Type r \<noteq> t \<or> ID r < ID l) table)"

text \<open>The key \<^verbatim>\<open>distinctUntilChanged\<close> holds after a stream of notifications.\<close>

fun key_after :: "('v \<Rightarrow> 'v \<Rightarrow> bool) \<Rightarrow> 'v option \<Rightarrow> 'v notification list \<Rightarrow> 'v option" where
  "key_after compare key [] = key"
| "key_after compare key (Next v # ns) =
     (case key of
        None \<Rightarrow> key_after compare (Some v) ns
      | Some k \<Rightarrow>
          if compare k v then key_after compare (Some k) ns
          else key_after compare (Some v) ns)"
| "key_after compare key (Error e # ns) = key_after compare key ns"
| "key_after compare key (Complete # ns) = key_after compare key ns"

text \<open>
  A notification of a provider list that has been replaced: one with a number below
  \<open>k\<close>, the number of the current list.
\<close>

fun superseded :: "nat \<Rightarrow> ('p, 'a) event \<Rightarrow> bool" where
  "superseded k (ProviderNotify j i n) = (j < k)"
| "superseded k (ProvidersNext providers) = False"
| "superseded k (ProvidersError e) = False"
| "superseded k ProvidersComplete = False"

text \<open>
  The only inner subscription a subscriber of switchMap can hold is the one of the
  provider list it received last.
\<close>

definition newest_only :: "'a state \<Rightarrow> bool" where
  "newest_only st =
     (case innerSubscription st of None \<Rightarrow> True | Some s \<Rightarrow> Suc (sid s) = index st)"

text \<open>
  The events that bring an error \<^verbatim>\<open>catchError\<close> does not cover: an error of the
  \<^verbatim>\<open>providers\<close> Observable, and a provider list with a provider whose call throws.
\<close>

fun raises :: "'p \<Rightarrow> ('p, 'a) event \<Rightarrow> bool" where
  "raises params (ProvidersNext providers) =
     (case snd (invoke_all params providers) of Inl e \<Rightarrow> True | Inr streams \<Rightarrow> False)"
| "raises params (ProvidersError e) = True"
| "raises params ProvidersComplete = False"
| "raises params (ProviderNotify k i n) = False"

section \<open>Facts about the operators\<close>

lemmas switchMap_defs = switchMap_def switchMap_next_def switchMap_error_def
  switchMap_complete_def switchMap_inner_def combineLatest_def subscribe_source_def
  source_event_def notifyNext_def notifyComplete_def init_def Let_def

lemmas pipeline_defs = getLocations_def results_of_def getLocation_def
  distinctUntilChanged_def defaultIfEmpty_def has_result_def drop_initial_def
  flattenAndCompact_def locations_equal_def same_def unwrap_single_def

lemma values_of_append: "values_of (ns @ ms) = values_of ns @ values_of ms"
  by (induction ns rule: values_of.induct) simp_all

lemma values_of_filterN: "values_of (filterN P ns) = filter P (values_of ns)"
  by (induction ns rule: values_of.induct) simp_all

lemma values_of_mapN: "values_of (mapN f ns) = map f (values_of ns)"
  by (induction ns rule: values_of.induct) simp_all

lemma filterN_append: "filterN P (ns @ ms) = filterN P ns @ filterN P ms"
  by (induction ns rule: values_of.induct) simp_all

lemma mapN_append: "mapN f (ns @ ms) = mapN f ns @ mapN f ms"
  by (induction ns rule: values_of.induct) simp_all

lemma set_values_of_defaultIfEmpty_from:
  "set (values_of (defaultIfEmpty_from b d ns)) \<subseteq> insert d (set (values_of ns))"
  by (induction b d ns rule: defaultIfEmpty_from.induct) auto

lemma values_of_defaultIfEmpty_from_False:
  "values_of (defaultIfEmpty_from False d ns) = values_of ns"
  by (induction ns rule: values_of.induct) simp_all

lemma set_values_of_distinctUntilChanged_from:
  "set (values_of (distinctUntilChanged_from c k ns)) \<subseteq> set (values_of ns)"
  by (induction c k ns rule: distinctUntilChanged_from.induct) (auto split: option.splits)

lemma flattenAndCompact_shape:
  "flattenAndCompact v = None \<or> (\<exists>ls. flattenAndCompact v = Some ls \<and> ls \<noteq> [])"
  by (simp add: flattenAndCompact_def Let_def split: option.splits)

lemma results_of_all_initial:
  assumes "list_all (\<lambda>r. r = INITIAL) rs"
  shows "results_of (ns @ [Next (Some rs)]) = results_of ns"
  using assms by (simp add: results_of_def filterN_append has_result_def)

section \<open>The shape adapters\<close>

text \<open>
  Claim C7. \<^verbatim>\<open>getLocation\<close> is \<^verbatim>\<open>getLocations\<close> with every result mapped: a
  one-element array becomes its element, null and arrays of two or more elements are
  passed on as they are. One provider that returns the single Location \<open>l\<close> and
  completes gives \<open>l\<close> from \<^verbatim>\<open>getLocation\<close> and \<open>[l]\<close> from \<^verbatim>\<open>getLocations\<close>.
\<close>

theorem getLocation_unwraps_singleton:
  "getLocation params schedule = mapN unwrap_single (getLocations params schedule)
   \<and> values_of (getLocation params schedule)
       = map unwrap_single (values_of (getLocations params schedule))
   \<and> unwrap_single (Some [l]) = Single l
   \<and> unwrap_single None = Null
   \<and> unwrap_single (Some (l1 # l2 # ls)) = Many (l1 # l2 # ls)
   \<and> getLocation params
         [ProvidersNext [\<lambda>_. Returns [Next (Single l), Complete]], ProvidersComplete]
       = [Next (Single l), Complete]
   \<and> getLocations params
         [ProvidersNext [\<lambda>_. Returns [Next (Single l), Complete]], ProvidersComplete]
       = [Next (Some [l]), Complete]"
proof -
  have "getLocations params
          [ProvidersNext [\<lambda>_. Returns [Next (Single l), Complete]], ProvidersComplete]
        = [Next (Some [l]), Complete]"
    by (simp add: switchMap_defs pipeline_defs)
  then show ?thesis
    by (simp add: getLocation_def values_of_mapN unwrap_single_def)
qed

section \<open>The empty provider list\<close>

lemma run_without_inner:
  "innerSubscription st = None \<Longrightarrow> \<forall>ps. ProvidersNext ps \<notin> set schedule \<Longrightarrow>
     values_of (snd (run params st schedule)) = [] \<and>
     calls (fst (run params st schedule)) = calls st"
proof (induction schedule arbitrary: st)
  case Nil
  then show ?case by simp
next
  case (Cons e es)
  obtain st1 out1 where s1: "step params st e = (st1, out1)"
    by (cases "step params st e")
  have quiet: "innerSubscription st1 = None \<and> values_of out1 = [] \<and> calls st1 = calls st"
    using Cons.prems s1
    by (cases e)
      (auto simp: switchMap_error_def switchMap_complete_def switchMap_inner_def
        split: if_splits)
  moreover have "\<forall>ps. ProvidersNext ps \<notin> set es"
    using Cons.prems by simp
  ultimately have ih:
    "values_of (snd (run params st1 es)) = [] \<and> calls (fst (run params st1 es)) = calls st"
    using Cons.IH[of st1] by simp
  obtain st2 out2 where s2: "run params st1 es = (st2, out2)"
    by (cases "run params st1 es")
  show ?case
    using ih s1 s2 quiet by (simp add: values_of_append)
qed

text \<open>
  Claim C4. When the \<^verbatim>\<open>providers\<close> Observable delivers the empty list, and no other
  list after it, \<^verbatim>\<open>getLocations\<close> emits null exactly once, whatever the parameters
  and whatever else happens, and no provider is called.
\<close>

theorem empty_provider_list_emits_null_once:
  fixes schedule :: "('p, 'a) event list"
  assumes "\<forall>ps. ProvidersNext ps \<notin> set schedule"
  shows "values_of (getLocations params (ProvidersNext [] # schedule)) = [None]
         \<and> invocations params (ProvidersNext [] # schedule) = 0"
proof -
  define st1 :: "'a state"
    where "st1 = init\<lparr>index := Suc (index init), innerSubscription := None\<rparr>"
  have st: "step params init (ProvidersNext []) = (st1, [Next None])"
    by (simp add: switchMap_next_def init_def st1_def)
  have r: "values_of (snd (run params st1 schedule)) = []
           \<and> calls (fst (run params st1 schedule)) = 0"
    using run_without_inner[of st1 schedule params] assms by (simp add: init_def st1_def)
  obtain st2 out2 where r2: "run params st1 schedule = (st2, out2)"
    by (cases "run params st1 schedule")
  have sw: "switchMap params (ProvidersNext [] # schedule) = Next None # out2"
    using st r2 by (simp add: switchMap_def)
  have v: "values_of out2 = []"
    using r r2 by simp
  have "values_of (results_of (Next None # out2)) = [None]"
  proof -
    let ?ns = "mapN flattenAndCompact (mapN drop_initial (filterN has_result out2))"
    have e: "values_of ?ns = []"
      using v by (simp add: values_of_mapN values_of_filterN)
    have "set (values_of (distinctUntilChanged_from locations_equal (Some None)
                 (defaultIfEmpty_from False None ?ns))) \<subseteq> {}"
      using set_values_of_distinctUntilChanged_from
              [of locations_equal "Some None" "defaultIfEmpty_from False None ?ns"] e
      by (simp add: values_of_defaultIfEmpty_from_False)
    then show ?thesis
      by (simp add: results_of_def distinctUntilChanged_def defaultIfEmpty_def
          has_result_def drop_initial_def flattenAndCompact_def)
  qed
  then show ?thesis
    using sw r r2 st by (simp add: getLocations_def invocations_def)
qed

theorem empty_provider_list_witness:
  "(\<forall>ps. ProvidersNext ps \<notin> set [ProvidersComplete :: (unit, unit) event])
   \<and> values_of (getLocations () [ProvidersNext [], ProvidersComplete :: (unit, unit) event])
       = [None]
   \<and> invocations () [ProvidersNext [], ProvidersComplete :: (unit, unit) event] = 0"
  using empty_provider_list_emits_null_once
          [of "[ProvidersComplete :: (unit, unit) event]" "()"]
  by simp

section \<open>Flattening\<close>

lemma contribution_Value: "contribution (Value r) = members r"
  by (cases r) simp_all

lemma members_not_initial: "concat (map members (not_initial rs)) = concat (map contribution rs)"
  by (induction rs rule: not_initial.induct) (simp_all add: contribution_Value)

lemma results_of_single:
  "results_of [Next (Some rs)] =
     (if list_all (\<lambda>r. r = INITIAL) rs then []
      else [Next (if concat (map contribution rs) = [] then None
                  else Some (concat (map contribution rs)))])"
  by (simp add: results_of_def has_result_def drop_initial_def flattenAndCompact_def
      distinctUntilChanged_def defaultIfEmpty_def members_not_initial)

text \<open>
  Claim C5. The members of a combined snapshot that are still the Sentinel are
  dropped, and the others are flattened into one array, nulls discarded, in the order
  of the providers and, within a provider, of its array; an empty array becomes null.
  Equal Locations of different providers are kept: \<open>[l1, l2]\<close> from the first
  provider and \<open>[l1]\<close> from the second give \<open>[l1, l2, l1]\<close>.
\<close>

theorem flatten_keeps_order_and_duplicates:
  "flattenAndCompact (drop_initial (Some rs)) =
     (if concat (map contribution rs) = [] then None else Some (concat (map contribution rs)))
   \<and> results_of [Next (Some rs)] =
     (if list_all (\<lambda>r. r = INITIAL) rs then []
      else [Next (if concat (map contribution rs) = [] then None
                  else Some (concat (map contribution rs)))])
   \<and> results_of [Next (Some [Value (Many [l1, l2]), Value (Many [l1])])] = [Next (Some [l1, l2, l1])]
   \<and> values_of (getLocations params
        [ProvidersNext [\<lambda>_. Returns [Next (Many [l1, l2])], \<lambda>_. Returns [Next (Many [l1])]]])
      = [Some [l1, l2], Some [l1, l2, l1]]"
proof -
  have "values_of (getLocations params
        [ProvidersNext [\<lambda>_. Returns [Next (Many [l1, l2])], \<lambda>_. Returns [Next (Many [l1])]]])
      = [Some [l1, l2], Some [l1, l2, l1]]"
    by (simp add: switchMap_defs pipeline_defs)
  moreover have "flattenAndCompact (drop_initial (Some rs)) =
     (if concat (map contribution rs) = [] then None else Some (concat (map contribution rs)))"
    by (simp add: drop_initial_def flattenAndCompact_def members_not_initial)
  ultimately show ?thesis
    by (simp add: results_of_single)
qed

section \<open>The dedup law\<close>

lemma every_indexed:
  "list_all (\<lambda>(e, i). P e i) (zip xs [0..<length xs]) = (\<forall>i<length xs. P (xs ! i) i)"
  by (simp add: list_all_length)

lemma same_refs_iff:
  "(length xs = length ys \<and> (\<forall>i<length xs. ref (xs ! i) = ref (ys ! i))) =
     (map ref xs = map ref ys)"
  using list_eq_iff_nth_eq[of "map ref xs" "map ref ys"] by auto

lemma locations_equal_iff:
  "locations_equal a b = (map_option (map ref) a = map_option (map ref) b)"
proof (cases a)
  case None
  then show ?thesis by (cases b) (simp_all add: locations_equal_def)
next
  case (Some xs)
  show ?thesis
  proof (cases b)
    case None
    then show ?thesis using Some by (simp add: locations_equal_def)
  next
    case (Some ys)
    then show ?thesis using \<open>a = Some xs\<close> same_refs_iff[of xs ys]
      by (simp add: locations_equal_def every_indexed same_def)
  qed
qed

lemma shallow_equal_iff:
  "shallow_equal a b = (map_option (map ref) a = map_option (map ref) b)"
proof (cases a)
  case None
  then show ?thesis by (cases b) (simp_all add: shallow_equal_def)
next
  case (Some xs)
  show ?thesis
  proof (cases b)
    case None
    then show ?thesis using Some by (simp add: shallow_equal_def)
  next
    case (Some ys)
    then show ?thesis using \<open>a = Some xs\<close> same_refs_iff[of xs ys]
      by (auto simp: shallow_equal_def list_all2_conv_all_nth)
  qed
qed

lemma locations_equal_is_shallow_equal: "locations_equal a b = shallow_equal a b"
  by (simp add: locations_equal_iff shallow_equal_iff)

lemma distinctUntilChanged_from_append:
  "distinctUntilChanged_from c k (ns @ ms) =
     distinctUntilChanged_from c k ns @ distinctUntilChanged_from c (key_after c k ns) ms"
  by (induction c k ns rule: distinctUntilChanged_from.induct) (simp_all split: option.splits)

lemma key_after_append:
  "key_after c k (ns @ ms) = key_after c (key_after c k ns) ms"
  by (induction c k ns rule: key_after.induct) (simp_all split: option.splits)

lemma key_after_Next:
  "\<exists>k'. key_after locations_equal k (ns @ [Next x]) = Some k' \<and> locations_equal k' x"
  by (cases "key_after locations_equal k ns")
     (simp_all add: key_after_append locations_equal_iff)

lemma distinct_consecutive:
  "distinctUntilChanged locations_equal (ns @ [Next x, Next y]) =
     distinctUntilChanged locations_equal (ns @ [Next x]) @
       (if shallow_equal x y then [] else [Next y])"
proof -
  obtain k' where k: "key_after locations_equal None (ns @ [Next x]) = Some k'"
    and e: "locations_equal k' x"
    using key_after_Next by blast
  have "locations_equal k' y = shallow_equal x y"
    using e by (simp add: locations_equal_iff shallow_equal_iff)
  moreover have "ns @ [Next x, Next y] = (ns @ [Next x]) @ [Next y]" by simp
  ultimately show ?thesis
    using k unfolding distinctUntilChanged_def
    by (simp only: distinctUntilChanged_from_append) simp
qed

lemma contribution_flip:
  "i < length rs \<Longrightarrow> rs ! i = INITIAL \<Longrightarrow>
     concat (map contribution (rs[i := Value Null])) = concat (map contribution rs)"
proof (induction rs arbitrary: i)
  case Nil
  then show ?case by simp
next
  case (Cons r rs)
  then show ?case by (cases i) simp_all
qed

lemma defaultIfEmpty_from_append_Next:
  "defaultIfEmpty_from b d (ns @ [Next x]) = defaultIfEmpty_from b d ns @ [Next x]"
  by (induction b d ns rule: defaultIfEmpty_from.induct) simp_all

lemma results_of_snoc:
  "has_result v \<Longrightarrow>
   results_of (ns @ [Next v]) =
     distinctUntilChanged locations_equal
       (defaultIfEmpty None (mapN flattenAndCompact (mapN drop_initial (filterN has_result ns)))
        @ [Next (flattenAndCompact (drop_initial v))])"
  by (simp add: results_of_def filterN_append mapN_append defaultIfEmpty_def
      defaultIfEmpty_from_append_Next)

lemma flip_no_emission:
  assumes "\<not> list_all (\<lambda>r. r = INITIAL) rs" "i < length rs" "rs ! i = INITIAL"
  shows "results_of (ns @ [Next (Some rs), Next (Some (rs[i := Value Null]))]) =
         results_of (ns @ [Next (Some rs)])"
proof -
  let ?pre = "defaultIfEmpty None (mapN flattenAndCompact (mapN drop_initial (filterN has_result ns)))"
  let ?x = "flattenAndCompact (drop_initial (Some rs))"
  have h1: "has_result (Some rs)" using assms(1) by (simp add: has_result_def)
  have "\<exists>j < length (rs[i := Value Null]). rs[i := Value Null] ! j \<noteq> INITIAL"
    using assms(2) by (intro exI[of _ i]) simp
  then have h2: "has_result (Some (rs[i := Value Null]))"
    by (auto simp: has_result_def list_all_length)
  have same: "flattenAndCompact (drop_initial (Some (rs[i := Value Null]))) = ?x"
    using contribution_flip[OF assms(2,3)]
    by (simp add: drop_initial_def flattenAndCompact_def members_not_initial)
  have "results_of ((ns @ [Next (Some rs)]) @ [Next (Some (rs[i := Value Null]))]) =
        distinctUntilChanged locations_equal ((?pre @ [Next ?x]) @ [Next ?x])"
    using results_of_snoc[OF h2, of "ns @ [Next (Some rs)]"] h1 same
    by (simp add: filterN_append mapN_append defaultIfEmpty_def defaultIfEmpty_from_append_Next)
  also have "\<dots> = distinctUntilChanged locations_equal (?pre @ [Next ?x])"
    using distinct_consecutive[of ?pre ?x ?x] by (simp add: shallow_equal_iff)
  also have "\<dots> = results_of (ns @ [Next (Some rs)])"
    using results_of_snoc[OF h1, of ns] by simp
  finally show ?thesis by simp
qed

lemma key_after_last:
  "key_after c k ns =
     (if values_of (distinctUntilChanged_from c k ns) = [] then k
      else Some (last (values_of (distinctUntilChanged_from c k ns))))"
proof (induction c k ns rule: distinctUntilChanged_from.induct)
  case (2 compare key v ns)
  then show ?case by (cases key) simp_all
qed simp_all

lemma flatten_normalized:
  "flattenAndCompact (drop_initial (Some rs)) = normalized rs"
  by (simp add: drop_initial_def flattenAndCompact_def members_not_initial normalized_def)

lemma results_of_next:
  "results_of (ns @ [Next v]) =
     results_of ns @
       (if \<not> has_result v then []
        else if values_of (results_of ns) \<noteq> [] \<and>
                shallow_equal (last (values_of (results_of ns)))
                  (flattenAndCompact (drop_initial v))
        then []
        else [Next (flattenAndCompact (drop_initial v))])"
proof (cases "has_result v")
  case False
  then show ?thesis by (simp add: results_of_def filterN_append)
next
  case True
  have k: "key_after locations_equal None
             (defaultIfEmpty None
               (mapN flattenAndCompact (mapN drop_initial (filterN has_result ns)))) =
           (if values_of (results_of ns) = [] then None
            else Some (last (values_of (results_of ns))))"
    using key_after_last[of locations_equal None
            "defaultIfEmpty None
               (mapN flattenAndCompact (mapN drop_initial (filterN has_result ns)))"]
    by (simp add: results_of_def distinctUntilChanged_def)
  show ?thesis
    using True k results_of_snoc[OF True, of ns]
    by (simp add: distinctUntilChanged_def distinctUntilChanged_from_append
        locations_equal_is_shallow_equal results_of_def)
qed

lemma results_of_consecutive:
  assumes "has_result v" "has_result w"
  shows "results_of (ns @ [Next v, Next w]) =
     results_of (ns @ [Next v]) @
       (if shallow_equal (flattenAndCompact (drop_initial v)) (flattenAndCompact (drop_initial w))
        then [] else [Next (flattenAndCompact (drop_initial w))])"
proof -
  have l: "values_of (results_of (ns @ [Next v])) \<noteq> [] \<and>
           shallow_equal (last (values_of (results_of (ns @ [Next v]))))
             (flattenAndCompact (drop_initial v))"
    using assms(1) results_of_next[of ns v]
    by (simp add: values_of_append shallow_equal_iff)
  have e: "shallow_equal (last (values_of (results_of (ns @ [Next v]))))
             (flattenAndCompact (drop_initial w)) =
           shallow_equal (flattenAndCompact (drop_initial v)) (flattenAndCompact (drop_initial w))"
    using l by (simp add: shallow_equal_iff)
  have "results_of ((ns @ [Next v]) @ [Next w]) =
     results_of (ns @ [Next v]) @
       (if shallow_equal (flattenAndCompact (drop_initial v)) (flattenAndCompact (drop_initial w))
        then [] else [Next (flattenAndCompact (drop_initial w))])"
    using results_of_next[of "ns @ [Next v]" w] assms(2) l e by simp
  then show ?thesis by simp
qed

text \<open>
  Claim C1, as stated, fails where the claim speaks of any provider flipping from the
  Sentinel to null: with a single provider that has not spoken, nothing has been
  emitted, and the provider's null is emitted as the first result.
\<close>

theorem sentinel_to_null_counterexample:
  "getLocations () [ProvidersNext [\<lambda>_. Returns []]]
     = ([] :: unit obj list option notification list)
   \<and> getLocations () [ProvidersNext [\<lambda>_. Returns []], ProviderNotify 0 0 (Next Null)]
     = [Next (None :: unit obj list option)]"
  by (simp add: switchMap_defs pipeline_defs)

text \<open>
  Claim C1, amended. The comparator of the code is the dedup law. When two snapshots
  that both pass the filter follow each other, the result of the second is suppressed
  exactly when it equals the result of the first under the law; the same holds of
  \<^verbatim>\<open>distinctUntilChanged\<close> on any two consecutive values. In particular, when a
  snapshot in which some provider has already spoken is followed by the same snapshot
  with one Sentinel replaced by null, nothing new is emitted.
\<close>

theorem dedup_suppresses_shallow_equal_results:
  "locations_equal x y = shallow_equal x y
   \<and> (has_result v \<and> has_result w \<longrightarrow>
        results_of (ms @ [Next v, Next w]) =
          results_of (ms @ [Next v]) @
            (if shallow_equal (flattenAndCompact (drop_initial v))
                  (flattenAndCompact (drop_initial w))
             then [] else [Next (flattenAndCompact (drop_initial w))]))
   \<and> distinctUntilChanged locations_equal (ns @ [Next x, Next y]) =
       distinctUntilChanged locations_equal (ns @ [Next x]) @
         (if shallow_equal x y then [] else [Next y])
   \<and> (\<not> list_all (\<lambda>r. r = INITIAL) rs \<and> i < length rs \<and> rs ! i = INITIAL \<longrightarrow>
        results_of (ms @ [Next (Some rs), Next (Some (rs[i := Value Null]))]) =
        results_of (ms @ [Next (Some rs)]))"
  using locations_equal_is_shallow_equal[of x y] distinct_consecutive[of ns x y]
    flip_no_emission[of rs i ms] results_of_consecutive[of v w ms]
  by simp

theorem dedup_witness:
  "distinctUntilChanged locations_equal
      ([] @ [Next (Some [Obj 1 ()]), Next (Some [Obj 1 ()])]) = [Next (Some [Obj 1 ()])]
   \<and> distinctUntilChanged locations_equal
      ([] @ [Next (Some [Obj 1 ()]), Next (Some [Obj 2 ()])])
       = [Next (Some [Obj 1 ()]), Next (Some [Obj 2 ()])]
   \<and> has_result (Some [Value (Single (Obj 1 ())), INITIAL])
   \<and> has_result (Some [Value (Single (Obj 1 ())), Value (Single (Obj 2 ()))])
   \<and> results_of ([] @ [Next (Some [Value (Single (Obj 1 ())), INITIAL]),
                        Next (Some [Value (Single (Obj 1 ())), Value (Single (Obj 2 ()))])])
       = [Next (Some [Obj 1 ()]), Next (Some [Obj 1 (), Obj 2 ()])]
   \<and> \<not> list_all (\<lambda>r. r = INITIAL) [Value (Single (Obj 1 ())), INITIAL]
   \<and> 1 < length [Value (Single (Obj 1 ())), INITIAL]
   \<and> [Value (Single (Obj 1 ())), INITIAL] ! 1 = INITIAL
   \<and> results_of ([] @ [Next (Some [Value (Single (Obj 1 ())), INITIAL]),
                        Next (Some ([Value (Single (Obj 1 ())), INITIAL][1 := Value Null]))])
       = results_of ([] @ [Next (Some [Value (Single (Obj 1 ())), INITIAL])])"
proof -
  have h: "\<not> list_all (\<lambda>r. r = INITIAL) [Value (Single (Obj 1 ())), INITIAL]
           \<and> 1 < length [Value (Single (Obj 1 ())), INITIAL]
           \<and> [Value (Single (Obj 1 ())), INITIAL] ! 1 = INITIAL"
    by simp
  have r: "has_result (Some [Value (Single (Obj 1 ())), INITIAL])
           \<and> has_result (Some [Value (Single (Obj 1 ())), Value (Single (Obj 2 ()))])"
    by (simp add: has_result_def)
  note a = dedup_suppresses_shallow_equal_results
             [of "Some [Obj 1 ()]" "Some [Obj 1 ()]"
                 "Some [Value (Single (Obj 1 ())), INITIAL]"
                 "Some [Value (Single (Obj 1 ())), Value (Single (Obj 2 ()))]" "[]" "[]"
                 "[Value (Single (Obj 1 ())), INITIAL]" 1]
  note b = dedup_suppresses_shallow_equal_results
             [of "Some [Obj 1 ()]" "Some [Obj 2 ()]" "None" "None" "[]" "[]" "[]" 0]
  note a_pair = a[THEN conjunct2, THEN conjunct1]
  note a_dedup = a[THEN conjunct2, THEN conjunct2, THEN conjunct1]
  note a_flip = a[THEN conjunct2, THEN conjunct2, THEN conjunct2]
  note b_dedup = b[THEN conjunct2, THEN conjunct2, THEN conjunct1]
  have 1: "distinctUntilChanged locations_equal
          ([] @ [Next (Some [Obj 1 ()]), Next (Some [Obj 1 ()])]) = [Next (Some [Obj 1 ()])]"
    using a_dedup by (simp add: shallow_equal_def distinctUntilChanged_def)
  have 2: "distinctUntilChanged locations_equal
          ([] @ [Next (Some [Obj 1 ()]), Next (Some [Obj 2 ()])])
        = [Next (Some [Obj 1 ()]), Next (Some [Obj 2 ()])]"
    using b_dedup by (simp add: shallow_equal_def distinctUntilChanged_def)
  have s: "results_of ([] @ [Next (Some [Value (Single (Obj 1 ())), INITIAL])])
           = [Next (Some [Obj 1 ()])]"
    by (simp add: pipeline_defs)
  have 3: "results_of ([] @ [Next (Some [Value (Single (Obj 1 ())), INITIAL]),
                        Next (Some [Value (Single (Obj 1 ())), Value (Single (Obj 2 ()))])])
       = [Next (Some [Obj 1 ()]), Next (Some [Obj 1 (), Obj 2 ()])]"
    using a_pair r s by (simp add: shallow_equal_def drop_initial_def flattenAndCompact_def)
  have 4: "results_of ([] @ [Next (Some [Value (Single (Obj 1 ())), INITIAL]),
                        Next (Some ([Value (Single (Obj 1 ())), INITIAL][1 := Value Null]))])
       = results_of ([] @ [Next (Some [Value (Single (Obj 1 ())), INITIAL])])"
    using a_flip h by simp
  show ?thesis
    using 1 2 3 4 h r by simp
qed

section \<open>The shape of the emitted values\<close>

text \<open>
  Claim C6. Every value \<^verbatim>\<open>getLocations\<close> emits is null or a non-empty array of
  Locations (the Sentinel cannot occur in it, and it is never the empty array). A
  combined snapshot whose members are all still the Sentinel leaves the emitted stream
  as it was. Any other snapshot adds its flattened array, or null when that array is
  empty, unless that equals the value emitted last; the null of an empty provider list
  is added likewise.
\<close>

theorem emitted_values_null_or_nonempty:
  "(\<forall>v \<in> set (values_of (getLocations params schedule)).
      v = None \<or> (\<exists>ls. v = Some ls \<and> ls \<noteq> []))
   \<and> (list_all (\<lambda>r. r = INITIAL) rs \<longrightarrow>
        results_of (ns @ [Next (Some rs)]) = results_of ns)
   \<and> (\<not> list_all (\<lambda>r. r = INITIAL) rs \<longrightarrow>
        results_of (ns @ [Next (Some rs)]) =
          results_of ns @
            (if values_of (results_of ns) \<noteq> [] \<and>
                shallow_equal (last (values_of (results_of ns))) (normalized rs)
             then [] else [Next (normalized rs)]))
   \<and> (concat (map contribution rs) = [] \<longrightarrow> normalized rs = None)
   \<and> results_of (ns @ [Next None]) =
        results_of ns @
          (if values_of (results_of ns) \<noteq> [] \<and> last (values_of (results_of ns)) = None
           then [] else [Next None])"
proof -
  have a: "\<forall>v \<in> set (values_of (getLocations params schedule)).
      v = None \<or> (\<exists>ls. v = Some ls \<and> ls \<noteq> [])"
  proof
    fix v
    assume a: "v \<in> set (values_of (getLocations params schedule))"
    have "v \<in> insert None (set (values_of
            (mapN flattenAndCompact (mapN drop_initial
               (filterN has_result (switchMap params schedule))))))"
      using a set_values_of_distinctUntilChanged_from
                [of locations_equal None "defaultIfEmpty_from True None
                   (mapN flattenAndCompact (mapN drop_initial
                      (filterN has_result (switchMap params schedule))))"]
        set_values_of_defaultIfEmpty_from[of True None
           "mapN flattenAndCompact (mapN drop_initial
              (filterN has_result (switchMap params schedule)))"]
      by (auto simp: getLocations_def results_of_def distinctUntilChanged_def
          defaultIfEmpty_def)
    then show "v = None \<or> (\<exists>ls. v = Some ls \<and> ls \<noteq> [])"
      using flattenAndCompact_shape by (auto simp: values_of_mapN)
  qed
  have b: "list_all (\<lambda>r. r = INITIAL) rs \<longrightarrow>
        results_of (ns @ [Next (Some rs)]) = results_of ns"
    using results_of_all_initial[of rs ns] by simp
  have c: "\<not> list_all (\<lambda>r. r = INITIAL) rs \<longrightarrow>
        results_of (ns @ [Next (Some rs)]) =
          results_of ns @
            (if values_of (results_of ns) \<noteq> [] \<and>
                shallow_equal (last (values_of (results_of ns))) (normalized rs)
             then [] else [Next (normalized rs)])"
    using results_of_next[of ns "Some rs"]
    by (simp add: has_result_def flatten_normalized)
  have d: "concat (map contribution rs) = [] \<longrightarrow> normalized rs = None"
    by (simp add: normalized_def)
  have e: "results_of (ns @ [Next None]) =
        results_of ns @
          (if values_of (results_of ns) \<noteq> [] \<and> last (values_of (results_of ns)) = None
           then [] else [Next None])"
    using results_of_next[of ns None]
    by (simp add: has_result_def drop_initial_def flattenAndCompact_def shallow_equal_def
        split: option.splits)
  show ?thesis using a b c d e by simp
qed

theorem emitted_values_witness:
  "Some [] \<notin> set (values_of (getLocations ()
        [ProvidersNext [\<lambda>_. Returns [Next (Many []), Next (Many [Obj 1 ()])]]]))
   \<and> getLocations ()
        [ProvidersNext [\<lambda>_. Returns [Next (Many []), Next (Many [Obj 1 ()])]]]
       = results_of ([Next (Some [INITIAL]), Next (Some [Value (Many [])])] @
                     [Next (Some [Value (Many [Obj 1 ()])])])
   \<and> list_all (\<lambda>r. r = INITIAL) [INITIAL :: unit slot]
   \<and> results_of ([] @ [Next (Some [INITIAL :: unit slot])]) = []
   \<and> \<not> list_all (\<lambda>r. r = INITIAL) [Value (Many []) :: unit slot]
   \<and> concat (map contribution [Value (Many []) :: unit slot]) = []
   \<and> results_of ([Next (Some [INITIAL :: unit slot])] @ [Next (Some [Value (Many [])])])
       = [Next None]
   \<and> \<not> list_all (\<lambda>r. r = INITIAL) [Value (Many [Obj 1 ()])]
   \<and> results_of ([Next (Some [INITIAL]), Next (Some [Value (Many [])])] @
                   [Next (Some [Value (Many [Obj 1 ()])])])
       = [Next None, Next (Some [Obj 1 ()])]"
proof -
  note t0 = emitted_values_null_or_nonempty
             [of "()" "[ProvidersNext [\<lambda>_. Returns [Next (Many []), Next (Many [Obj 1 ()])]]]"
                 "[INITIAL :: unit slot]" "[]"]
  note t1 = emitted_values_null_or_nonempty
             [of "()" "[]" "[Value (Many []) :: unit slot]" "[Next (Some [INITIAL])]"]
  note t2 = emitted_values_null_or_nonempty
             [of "()" "[]" "[Value (Many [Obj 1 ()])]"
                 "[Next (Some [INITIAL]), Next (Some [Value (Many [])])]"]
  have e: "results_of ([] :: unit slot list option notification list) = []"
    by (simp add: pipeline_defs)
  have g: "getLocations ()
        [ProvidersNext [\<lambda>_. Returns [Next (Many []), Next (Many [Obj 1 ()])]]]
       = results_of ([Next (Some [INITIAL]), Next (Some [Value (Many [])])] @
                     [Next (Some [Value (Many [Obj 1 ()])])])"
    by (simp add: getLocations_def switchMap_defs)
  from t0[THEN conjunct1] have 0: "Some [] \<notin> set (values_of (getLocations ()
        [ProvidersNext [\<lambda>_. Returns [Next (Many []), Next (Many [Obj 1 ()])]]]))"
    by blast
  have 1: "results_of ([] @ [Next (Some [INITIAL :: unit slot])]) = []"
    using t0[THEN conjunct2, THEN conjunct1] e by simp
  have n: "normalized [Value (Many []) :: unit slot] = None"
    using t1[THEN conjunct2, THEN conjunct2, THEN conjunct2, THEN conjunct1] by simp
  have 2: "results_of ([Next (Some [INITIAL :: unit slot])] @ [Next (Some [Value (Many [])])])
       = [Next None]"
    using t1[THEN conjunct2, THEN conjunct2, THEN conjunct1] 1 n by simp
  have 3: "results_of ([Next (Some [INITIAL]), Next (Some [Value (Many [])])] @
                   [Next (Some [Value (Many [Obj 1 ()])])])
       = [Next None, Next (Some [Obj 1 ()])]"
    using t2[THEN conjunct2, THEN conjunct2, THEN conjunct1] 2
    by (simp add: normalized_def shallow_equal_def)
  show ?thesis
    using 0 1 2 3 g by simp
qed

section \<open>Errors of providers\<close>

text \<open>
  An error of a provider's Observable is caught: combineLatest sees the value null
  followed by the completion, and the error is printed.
\<close>

lemma stream_error_is_null_then_complete:
  "source_events i [Error e] s =
     (fst (source_events i [Next Null, Complete] s),
      (if i < length (opened s) \<and> opened s ! i then [e] else []),
      snd (snd (source_events i [Next Null, Complete] s)))"
  by (simp add: source_event_def notifyNext_def notifyComplete_def Let_def
      split: option.splits)

lemma erroring_stream_is_isolated:
  "getLocations params
     [ProvidersNext [\<lambda>_. Returns [Error ''boom''], \<lambda>_. Returns [Next (Many [l2]), Complete]],
      ProvidersComplete]
   = [Next None, Next (Some [l2]), Complete]"
  by (simp add: switchMap_defs pipeline_defs)

lemma Error_notifyNext: "Error er \<notin> set (snd (notifyNext i v s))"
  by (simp add: notifyNext_def Let_def split: option.splits)

lemma Error_notifyComplete: "Error er \<notin> set (snd (notifyComplete i s))"
  by (simp add: notifyComplete_def Let_def)

lemma Error_source_notify: "Error er \<notin> set (snd (snd (source_notify i n s)))"
proof (cases n)
  case (Next v)
  then show ?thesis using Error_notifyNext[of er i "Value v" s] by (simp add: split_beta)
next
  case (Error e)
  then show ?thesis
    using Error_notifyNext[of er i "Value Null" s]
      Error_notifyComplete[of er i "fst (notifyNext i (Value Null) s)"]
    by (simp add: split_beta)
next
  case Complete
  then show ?thesis using Error_notifyComplete[of er i s] by (simp add: split_beta)
qed

lemma Error_source_event: "Error er \<notin> set (snd (snd (source_event i n s)))"
  using Error_source_notify[of er i n s] by (simp add: source_event_def)

lemma Error_source_events: "Error er \<notin> set (snd (snd (source_events i ns s)))"
proof (induction ns arbitrary: s)
  case Nil
  then show ?case by simp
next
  case (Cons n ns)
  show ?case
    using Error_source_event[of er i n s] Cons[of "fst (source_event i n s)"]
    by (simp add: split_beta)
qed

lemma Error_subscribe_source: "Error er \<notin> set (snd (snd (subscribe_source i sync s)))"
  using Error_notifyNext[of er i INITIAL "s\<lparr>opened := (opened s)[i := True]\<rparr>"]
    Error_source_events[of er i sync
      "fst (notifyNext i INITIAL (s\<lparr>opened := (opened s)[i := True]\<rparr>))"]
  by (simp add: subscribe_source_def split_beta)

lemma Error_subscribe_sources: "Error er \<notin> set (snd (snd (subscribe_sources i streams s)))"
proof (induction streams arbitrary: i s)
  case Nil
  then show ?case by simp
next
  case (Cons x xs)
  show ?case
    using Error_subscribe_source[of er i x s]
      Cons[of "Suc i" "fst (subscribe_source i x s)"]
    by (simp add: split_beta)
qed

lemma Error_combineLatest: "Error er \<notin> set (snd (snd (combineLatest k streams)))"
  by (simp add: combineLatest_def Error_subscribe_sources)

lemma Error_mapN: "Error er \<in> set (mapN f ns) \<longleftrightarrow> Error er \<in> set ns"
  by (induction ns rule: values_of.induct) auto

lemma Error_filterN: "Error er \<in> set (filterN P ns) \<longleftrightarrow> Error er \<in> set ns"
  by (induction ns rule: values_of.induct) auto

lemma Error_defaultIfEmpty_from:
  "Error er \<in> set (defaultIfEmpty_from b d ns) \<longleftrightarrow> Error er \<in> set ns"
  by (induction b d ns rule: defaultIfEmpty_from.induct) auto

lemma Error_distinctUntilChanged_from:
  "Error er \<in> set (distinctUntilChanged_from c k ns) \<longleftrightarrow> Error er \<in> set ns"
  by (induction c k ns rule: distinctUntilChanged_from.induct) (auto split: option.splits)

lemma Error_switchMap_next:
  assumes "\<not> raises params (ProvidersNext ps)"
  shows "Error er \<notin> set (snd (switchMap_next params ps st))"
proof (cases "ps = []")
  case True
  then show ?thesis by (simp add: switchMap_next_def)
next
  case False
  obtain n r where inv: "invoke_all params ps = (n, r)"
    by (cases "invoke_all params ps")
  then obtain streams where r: "r = Inr streams"
    using assms by (cases r) simp_all
  obtain s logged out where c: "combineLatest (index st) streams = (s, logged, out)"
    by (cases "combineLatest (index st) streams")
  then have "Error er \<notin> set out"
    using Error_combineLatest[of er "index st" streams] by simp
  then show ?thesis
    using False inv r c by (simp add: switchMap_next_def Error_mapN)
qed

lemma Error_switchMap_inner: "Error er \<notin> set (snd (switchMap_inner k i n st))"
proof (cases "innerSubscription st")
  case None
  then show ?thesis by (simp add: switchMap_inner_def)
next
  case (Some s)
  obtain s' logged out where c: "source_event i n s = (s', logged, out)"
    by (cases "source_event i n s")
  then have "Error er \<notin> set out"
    using Error_source_event[of er i n s] by simp
  then show ?thesis
    using Some c by (simp add: switchMap_inner_def Error_mapN)
qed

lemma Error_step:
  assumes "\<not> raises params e"
  shows "Error er \<notin> set (snd (step params st e))"
proof (cases e)
  case (ProvidersNext ps)
  then show ?thesis using assms Error_switchMap_next[of params ps er st] by simp
next
  case (ProvidersError x)
  then show ?thesis using assms by simp
next
  case ProvidersComplete
  then show ?thesis
    by (cases "innerSubscription st") (simp_all add: switchMap_complete_def)
next
  case (ProviderNotify k i n)
  then show ?thesis using Error_switchMap_inner[of er k i n st] by simp
qed

lemma Error_run:
  "\<forall>e \<in> set schedule. \<not> raises params e \<Longrightarrow> Error er \<notin> set (snd (run params st schedule))"
proof (induction schedule arbitrary: st)
  case Nil
  then show ?case by simp
next
  case (Cons e es)
  have "Error er \<notin> set (snd (step params st e))"
    using Cons.prems Error_step[of params e er st] by simp
  moreover have "Error er \<notin> set (snd (run params (fst (step params st e)) es))"
    using Cons by simp
  ultimately show ?case by (simp add: split_beta)
qed

text \<open>
  As long as no provider call throws and the \<^verbatim>\<open>providers\<close> Observable does not fail,
  \<^verbatim>\<open>getLocations\<close> never delivers an error, whatever the providers' Observables do.
\<close>

lemma stream_errors_never_propagate:
  assumes "\<forall>e \<in> set schedule. \<not> raises params e"
  shows "Error er \<notin> set (getLocations params schedule)"
  using Error_run[OF assms, of er init]
  by (simp add: getLocations_def results_of_def switchMap_def distinctUntilChanged_def
      defaultIfEmpty_def Error_distinctUntilChanged_from Error_defaultIfEmpty_from
      Error_mapN Error_filterN)

text \<open>
  Claim C2, on the code. \<^verbatim>\<open>catchError\<close> is applied to the Observable a provider
  returns. The call \<^verbatim>\<open>provider(params)\<close> itself is made inside switchMap's
  projection, outside of \<^verbatim>\<open>catchError\<close>: when the first provider throws on being
  called, the second provider is never called, nothing is emitted, and the error
  reaches the subscriber of \<^verbatim>\<open>getLocations\<close>.
\<close>

theorem throwing_provider_call_propagates:
  "getLocations params
     [ProvidersNext [\<lambda>_. Throws ''boom'', \<lambda>_. Returns [Next (Many [l2]), Complete]],
      ProvidersComplete]
   = [Error ''boom'']
   \<and> invocations params
     [ProvidersNext [\<lambda>_. Throws ''boom'', \<lambda>_. Returns [Next (Many [l2]), Complete]],
      ProvidersComplete]
   = 1"
  by (simp add: switchMap_defs pipeline_defs invocations_def)

section \<open>Replaced provider lists\<close>

lemma sid_notifyNext: "sid (fst (notifyNext i v s)) = sid s"
  by (simp add: notifyNext_def Let_def)

lemma sid_notifyComplete: "sid (fst (notifyComplete i s)) = sid s"
  by (simp add: notifyComplete_def Let_def)

lemma sid_source_notify: "sid (fst (source_notify i n s)) = sid s"
  by (cases n) (simp_all add: notifyNext_def notifyComplete_def Let_def)

lemma sid_source_event: "sid (fst (source_event i n s)) = sid s"
  by (simp add: source_event_def sid_source_notify)

lemma sid_source_events: "sid (fst (source_events i ns s)) = sid s"
proof (induction ns arbitrary: s)
  case Nil
  then show ?case by simp
next
  case (Cons n ns)
  then show ?case
    using sid_source_event[of i n s] by (simp add: split_beta)
qed

lemma sid_subscribe_source: "sid (fst (subscribe_source i sync s)) = sid s"
  using sid_source_events[of i sync "fst (notifyNext i INITIAL (s\<lparr>opened := (opened s)[i := True]\<rparr>))"]
  by (simp add: subscribe_source_def split_beta sid_notifyNext)

lemma sid_subscribe_sources: "sid (fst (subscribe_sources i streams s)) = sid s"
proof (induction streams arbitrary: i s)
  case Nil
  then show ?case by simp
next
  case (Cons x xs)
  then show ?case
    using sid_subscribe_source[of i x s] by (simp add: split_beta)
qed

lemma sid_combineLatest: "sid (fst (combineLatest k streams)) = k"
  by (simp add: combineLatest_def sid_subscribe_sources)

lemma switchMap_next_newest_only:
  "newest_only (fst (switchMap_next params ps st))"
proof (cases "ps = []")
  case True
  then show ?thesis by (simp add: switchMap_next_def newest_only_def)
next
  case False
  obtain n r where inv: "invoke_all params ps = (n, r)"
    by (cases "invoke_all params ps")
  show ?thesis
  proof (cases r)
    case (Inl e)
    then show ?thesis using False inv by (simp add: switchMap_next_def newest_only_def)
  next
    case (Inr streams)
    obtain s logged out where c: "combineLatest (index st) streams = (s, logged, out)"
      by (cases "combineLatest (index st) streams")
    then have "sid s = index st"
      using sid_combineLatest[of "index st" streams] by simp
    then show ?thesis using False inv Inr c
      by (simp add: switchMap_next_def newest_only_def)
  qed
qed

lemma switchMap_inner_newest_only:
  assumes "newest_only st"
  shows "newest_only (fst (switchMap_inner k i n st))"
proof (cases "innerSubscription st")
  case None
  then show ?thesis using assms by (simp add: switchMap_inner_def)
next
  case (Some s)
  obtain s' logged out where c: "source_event i n s = (s', logged, out)"
    by (cases "source_event i n s")
  then have "sid s' = sid s"
    using sid_source_event[of i n s] by simp
  then show ?thesis using assms Some c
    by (simp add: switchMap_inner_def newest_only_def)
qed

lemma step_newest_only:
  assumes "newest_only st"
  shows "newest_only (fst (step params st e))"
proof (cases e)
  case (ProvidersNext ps)
  then show ?thesis using assms switchMap_next_newest_only[of params ps st] by simp
next
  case (ProvidersError x2)
  then show ?thesis using assms
    by (cases "innerSubscription st") (simp_all add: switchMap_error_def newest_only_def)
next
  case ProvidersComplete
  then show ?thesis using assms
    by (cases "innerSubscription st") (simp_all add: switchMap_complete_def newest_only_def)
next
  case (ProviderNotify k i n)
  then show ?thesis using assms switchMap_inner_newest_only[of st k i n] by simp
qed

lemma index_switchMap_next:
  "index (fst (switchMap_next params ps st)) = Suc (index st)"
proof (cases "ps = []")
  case True
  then show ?thesis by (simp add: switchMap_next_def)
next
  case False
  obtain n r where inv: "invoke_all params ps = (n, r)"
    by (cases "invoke_all params ps")
  show ?thesis
  proof (cases r)
    case (Inl e)
    then show ?thesis using False inv by (simp add: switchMap_next_def)
  next
    case (Inr streams)
    obtain s logged out where c: "combineLatest (index st) streams = (s, logged, out)"
      by (cases "combineLatest (index st) streams")
    then show ?thesis using False inv Inr
      by (simp add: switchMap_next_def)
  qed
qed

lemma index_switchMap_inner:
  "index (fst (switchMap_inner k i n st)) = index st"
proof (cases "innerSubscription st")
  case None
  then show ?thesis by (simp add: switchMap_inner_def)
next
  case (Some s)
  obtain s' logged out where c: "source_event i n s = (s', logged, out)"
    by (cases "source_event i n s")
  then show ?thesis using Some
    by (simp add: switchMap_inner_def)
qed

lemma index_step: "index st \<le> index (fst (step params st e))"
proof (cases e)
  case (ProvidersNext ps)
  then show ?thesis using index_switchMap_next[of params ps st] by simp
next
  case (ProvidersError x2)
  then show ?thesis by (simp add: switchMap_error_def)
next
  case ProvidersComplete
  then show ?thesis
    by (cases "innerSubscription st") (simp_all add: switchMap_complete_def)
next
  case (ProviderNotify k i n)
  then show ?thesis using index_switchMap_inner[of k i n st] by simp
qed

lemma superseded_step:
  assumes "newest_only st" "superseded (index st - 1) e"
  shows "step params st e = (st, [])"
proof (cases e)
  case (ProviderNotify j i n)
  show ?thesis
  proof (cases "innerSubscription st")
    case None
    then show ?thesis using ProviderNotify by (simp add: switchMap_inner_def)
  next
    case (Some s)
    then have "sid s \<noteq> j"
      using assms ProviderNotify by (simp add: newest_only_def)
    then show ?thesis using ProviderNotify Some by (simp add: switchMap_inner_def)
  qed
qed (use assms in simp_all)

lemma superseded_mono: "superseded k e \<Longrightarrow> k \<le> k' \<Longrightarrow> superseded k' e"
  by (cases e) simp_all

lemma run_drops_superseded:
  "newest_only st \<Longrightarrow> k \<le> index st - 1 \<Longrightarrow>
     run params st schedule = run params st (filter (\<lambda>e. \<not> superseded k e) schedule)"
proof (induction schedule arbitrary: st)
  case Nil
  then show ?case by simp
next
  case (Cons e es)
  show ?case
  proof (cases "superseded k e")
    case True
    have old: "superseded (index st - 1) e"
      by (rule superseded_mono[OF True Cons.prems(2)])
    have "step params st e = (st, [])"
      by (rule superseded_step[OF Cons.prems(1) old])
    moreover have "run params st es = run params st (filter (\<lambda>e. \<not> superseded k e) es)"
      by (rule Cons.IH[OF Cons.prems])
    ultimately show ?thesis using True by simp
  next
    case False
    obtain st1 out1 where s1: "step params st e = (st1, out1)"
      by (cases "step params st e")
    have n1: "newest_only st1"
      using step_newest_only[OF Cons.prems(1), of params e] s1 by simp
    have k1: "k \<le> index st1 - 1"
      using index_step[of st params e] s1 Cons.prems(2) by simp
    have "run params st1 es = run params st1 (filter (\<lambda>e. \<not> superseded k e) es)"
      by (rule Cons.IH[OF n1 k1])
    then show ?thesis using False s1 by simp
  qed
qed

lemma run_newest_only: "newest_only st \<Longrightarrow> newest_only (fst (run params st schedule))"
proof (induction schedule arbitrary: st)
  case Nil
  then show ?case by simp
next
  case (Cons e es)
  then show ?case
    using step_newest_only[of st params e] by (simp add: split_beta)
qed

lemma run_append:
  "run params st (xs @ ys) =
     (fst (run params (fst (run params st xs)) ys),
      snd (run params st xs) @ snd (run params (fst (run params st xs)) ys))"
  by (induction xs arbitrary: st) (simp_all add: split_beta)

lemma newest_only_init: "newest_only init"
  by (simp add: newest_only_def init_def)

lemma getLocations_drops_superseded:
  "getLocations params (before @ after) =
       getLocations params
         (before @ filter (\<lambda>e. \<not> superseded (index (fst (run params init before)) - 1) e) after)"
proof -
  have n: "newest_only (fst (run params init before))"
    by (rule run_newest_only[OF newest_only_init])
  have "run params (fst (run params init before)) after =
        run params (fst (run params init before))
          (filter (\<lambda>e. \<not> superseded (index (fst (run params init before)) - 1) e) after)"
    by (rule run_drops_superseded[OF n order_refl])
  then show ?thesis
    by (simp add: getLocations_def switchMap_def run_append)
qed

text \<open>
  Claim C3, as stated, fails for a change of the query and for a change of the
  provider population seen by the registry. \<^verbatim>\<open>getLocationsAndProviders\<close> maps each
  change to a record holding a fresh \<^verbatim>\<open>getLocations(of(providers), params)\<close>; it
  holds no subscription to the stream of an earlier record and tears nothing down.
  Here the registry has emitted a second record for another document, and the stream
  of the first record still delivers what its provider emits afterwards.
\<close>

theorem registry_keeps_earlier_stream_counterexample:
  "map hasProviders
     (values_of
       (getLocationsAndProviders
         (\<lambda>uri. Some \<lparr>textDocument = uri, position = (0, 0)\<rparr>) (\<lambda>selector uri. True)
         (None :: unit option)
         [Inl (Next [\<lparr>registrationOptions = \<lparr>documentSelector = ()\<rparr>,
                      provider = (\<lambda>_. Returns []) :: ((string, unit) params, unit) provider\<rparr>]),
          Inr (Next ''a.ts''), Inr (Next ''b.ts'')]))
     = [True, True]
   \<and> (case locations
            (hd (values_of
              (getLocationsAndProviders
                (\<lambda>uri. Some \<lparr>textDocument = uri, position = (0, 0)\<rparr>) (\<lambda>selector uri. True)
                (None :: unit option)
                [Inl (Next [\<lparr>registrationOptions = \<lparr>documentSelector = ()\<rparr>,
                             provider = (\<lambda>_. Returns []) :: ((string, unit) params, unit) provider\<rparr>]),
                 Inr (Next ''a.ts''), Inr (Next ''b.ts'')])))
       of None \<Rightarrow> False
        | Some observable \<Rightarrow>
            observable [ProviderNotify 0 0 (Next (Single (Obj 1 ())))]
              = [Next (Some [Obj 1 ()])])"
  by (simp add: getLocationsAndProviders_def combineLatest2_def compose_def of_providers_def
      switchMap_defs pipeline_defs)

text \<open>
  Claim C3, amended. Within one subscription to \<^verbatim>\<open>getLocations\<close>: at any moment the
  only inner subscription is the one of the provider list received last; a provider
  list that arrives while the subscription is open starts the next session; and the
  notifications of the providers of all earlier lists have no effect on what is
  emitted from then on, as if they did not happen.
\<close>

theorem superseded_provider_lists_are_cut_off:
  "(\<forall>s. innerSubscription (fst (run params init before)) = Some s \<longrightarrow>
        Suc (sid s) = index (fst (run params init before)))
   \<and> (\<not> closed st \<and> \<not> isStopped st \<longrightarrow>
        index (fst (step params st (ProvidersNext providers))) = Suc (index st))
   \<and> getLocations params (before @ after) =
       getLocations params
         (before @ filter (\<lambda>e. \<not> superseded (index (fst (run params init before)) - 1) e) after)"
proof -
  have n: "newest_only (fst (run params init before))"
    by (rule run_newest_only[OF newest_only_init])
  then have a: "\<forall>s. innerSubscription (fst (run params init before)) = Some s \<longrightarrow>
        Suc (sid s) = index (fst (run params init before))"
    by (simp add: newest_only_def split: option.splits)
  have b: "\<not> closed st \<and> \<not> isStopped st \<longrightarrow>
        index (fst (step params st (ProvidersNext providers))) = Suc (index st)"
    using index_switchMap_next[of params providers st] by simp
  show ?thesis using a b getLocations_drops_superseded[of params before after] by simp
qed

theorem superseded_witness:
  "innerSubscription (fst (run ()
       init [ProvidersNext [\<lambda>_. Returns []], ProvidersNext [\<lambda>_. Returns []]]))
     = Some \<lparr>sid = 1, vals = [Some (INITIAL :: unit slot)], opened = [True], active = 1\<rparr>
   \<and> index (fst (run ()
       (init :: unit state) [ProvidersNext [\<lambda>_. Returns []], ProvidersNext [\<lambda>_. Returns []]]))
     = 2
   \<and> \<not> closed (init :: unit state) \<and> \<not> isStopped (init :: unit state)
   \<and> index (fst (step () (init :: unit state) (ProvidersNext []))) = Suc (index (init :: unit state))
   \<and> getLocations ()
        ([ProvidersNext [\<lambda>_. Returns []], ProvidersNext [\<lambda>_. Returns []]] @
         [ProviderNotify 0 0 (Next (Single (Obj 1 ()))), ProviderNotify 1 0 (Next (Single (Obj 2 ())))])
     = getLocations ()
        ([ProvidersNext [\<lambda>_. Returns []], ProvidersNext [\<lambda>_. Returns []]] @
         [ProviderNotify 1 0 (Next (Single (Obj 2 ())))])
   \<and> getLocations ()
        ([ProvidersNext [\<lambda>_. Returns []], ProvidersNext [\<lambda>_. Returns []]] @
         [ProviderNotify 0 0 (Next (Single (Obj 1 ()))), ProviderNotify 1 0 (Next (Single (Obj 2 ())))])
     = [Next (Some [Obj 2 ()])]"
proof -
  have r: "run () init [ProvidersNext [\<lambda>_. Returns []], ProvidersNext [\<lambda>_. Returns []]]
           = (\<lparr>index = 2,
               innerSubscription =
                 Some \<lparr>sid = 1, vals = [Some (INITIAL :: unit slot)], opened = [True], active = 1\<rparr>,
               isStopped = False, closed = False, console = [], calls = 2\<rparr>,
              [Next (Some [INITIAL]), Next (Some [INITIAL])])"
    by (simp add: switchMap_defs)
  have i: "\<not> closed (init :: unit state) \<and> \<not> isStopped (init :: unit state)"
    by (simp add: init_def)
  note t = superseded_provider_lists_are_cut_off
             [of "()" "[ProvidersNext [\<lambda>_. Returns []], ProvidersNext [\<lambda>_. Returns []]]"
                 "init :: unit state" "[]"
                 "[ProviderNotify 0 0 (Next (Single (Obj 1 ()))),
                   ProviderNotify 1 0 (Next (Single (Obj 2 ())))]"]
  have g: "getLocations ()
        ([ProvidersNext [\<lambda>_. Returns []], ProvidersNext [\<lambda>_. Returns []]] @
         [ProviderNotify 1 0 (Next (Single (Obj 2 ())))])
     = [Next (Some [Obj 2 ()])]"
    by (simp add: switchMap_defs pipeline_defs)
  show ?thesis
    using t r i g by simp
qed

section \<open>The registry\<close>

lemma combineLatest2_from_errors:
  "Error e \<in> set (combineLatest2_from x y dx dy es) \<Longrightarrow>
     Inl (Error e) \<in> set es \<or> Inr (Error e) \<in> set es"
  by (induction x y dx dy es rule: combineLatest2_from.induct)
     (auto split: if_splits option.splits)

lemma set_mapN_Error: "Error e \<in> set (mapN f ns) \<Longrightarrow> Error e \<in> set ns"
  by (induction ns rule: values_of.induct) auto

lemma compose_no_document:
  "m2p model = None \<Longrightarrow>
     compose m2p match extra (entries, model) = \<lparr>locations = None, hasProviders = False\<rparr>"
  by (simp add: compose_def)

lemma compose_hasProviders:
  "m2p model = Some params \<Longrightarrow>
     hasProviders (compose m2p match extra (entries, model)) =
       (\<exists>e \<in> set entries. match (documentSelector (registrationOptions e)) (textDocument params))"
  by (auto simp: compose_def Let_def filter_empty_conv)

text \<open>
  Claim C8. Every record \<^verbatim>\<open>getLocationsAndProviders\<close> emits is the image of the
  current entries and model. An error can only come from the two sources. With no
  active document the record is \<^verbatim>\<open>{locations: null, hasProviders: false}\<close> and
  \<^verbatim>\<open>getLocations\<close> is not involved. With an active document \<open>locations\<close> is a stream
  and \<open>hasProviders\<close> tells whether some entry's selector matches the document.
\<close>

theorem registry_emissions:
  "values_of (getLocationsAndProviders m2p match extra events) =
     map (compose m2p match extra) (values_of (combineLatest2 events))
   \<and> (Error er \<in> set (getLocationsAndProviders m2p match extra events) \<longrightarrow>
        Inl (Error er) \<in> set events \<or> Inr (Error er) \<in> set events)
   \<and> (m2p model = None \<longrightarrow>
        compose m2p match extra (entries, model) = \<lparr>locations = None, hasProviders = False\<rparr>)
   \<and> (m2p model = Some params \<longrightarrow>
        locations (compose m2p match extra (entries, model)) \<noteq> None \<and>
        hasProviders (compose m2p match extra (entries, model)) =
          (\<exists>e \<in> set entries.
             match (documentSelector (registrationOptions e)) (textDocument params)))"
proof -
  have a: "values_of (getLocationsAndProviders m2p match extra events) =
     map (compose m2p match extra) (values_of (combineLatest2 events))"
    by (simp add: getLocationsAndProviders_def values_of_mapN)
  have b: "Error er \<in> set (getLocationsAndProviders m2p match extra events) \<longrightarrow>
        Inl (Error er) \<in> set events \<or> Inr (Error er) \<in> set events"
    using set_mapN_Error combineLatest2_from_errors
    unfolding getLocationsAndProviders_def combineLatest2_def by fast
  have c: "m2p model = Some params \<longrightarrow>
        locations (compose m2p match extra (entries, model)) \<noteq> None"
    by (simp add: compose_def Let_def)
  show ?thesis using a b c compose_no_document[of m2p model match extra entries]
      compose_hasProviders[of m2p model params match extra entries]
    by simp
qed

theorem registry_witness:
  "values_of (getLocationsAndProviders
       (\<lambda>uri. if uri = [] then None else Some \<lparr>textDocument = uri, position = (0, 0)\<rparr>)
       (\<lambda>selector uri. selector = uri) (None :: unit option)
       [Inl (Next [\<lparr>registrationOptions = \<lparr>documentSelector = ''a.ts''\<rparr>,
                    provider = (\<lambda>_. Returns []) :: ((string, unit) params, unit) provider\<rparr>]),
        Inr (Next [])])
     = [\<lparr>locations = None, hasProviders = False\<rparr>]
   \<and> hasProviders (compose
       (\<lambda>uri. if uri = [] then None else Some \<lparr>textDocument = uri, position = (0, 0)\<rparr>)
       (\<lambda>selector uri. selector = uri) (None :: unit option)
       ([\<lparr>registrationOptions = \<lparr>documentSelector = ''a.ts''\<rparr>,
          provider = (\<lambda>_. Returns []) :: ((string, unit) params, unit) provider\<rparr>], ''a.ts''))
   \<and> \<not> hasProviders (compose
       (\<lambda>uri. if uri = [] then None else Some \<lparr>textDocument = uri, position = (0, 0)\<rparr>)
       (\<lambda>selector uri. selector = uri) (None :: unit option)
       ([\<lparr>registrationOptions = \<lparr>documentSelector = ''a.ts''\<rparr>,
          provider = (\<lambda>_. Returns []) :: ((string, unit) params, unit) provider\<rparr>], ''b.ts''))
   \<and> Error ''x'' \<notin> set (getLocationsAndProviders
       (\<lambda>uri. if uri = [] then None else Some \<lparr>textDocument = uri, position = (0, 0)\<rparr>)
       (\<lambda>selector uri. selector = uri) (None :: unit option)
       [Inl (Next [\<lparr>registrationOptions = \<lparr>documentSelector = ''a.ts''\<rparr>,
                    provider = (\<lambda>_. Returns []) :: ((string, unit) params, unit) provider\<rparr>]),
        Inr (Next [])])"
proof -
  let ?m2p = "\<lambda>uri. if uri = [] then None else Some \<lparr>textDocument = uri, position = (0::nat, 0::nat)\<rparr>"
  let ?match = "\<lambda>selector uri :: string. selector = uri"
  let ?entries = "[\<lparr>registrationOptions = \<lparr>documentSelector = ''a.ts''\<rparr>,
                    provider = (\<lambda>_. Returns []) :: ((string, unit) params, unit) provider\<rparr>]"
  let ?events = "[Inl (Next ?entries), Inr (Next [])]"
  note a = registry_emissions
             [of ?m2p ?match "None :: unit option" ?events "''x''" "[]"
                 ?entries "\<lparr>textDocument = ''a.ts'', position = (0, 0)\<rparr>"]
  note b = registry_emissions
             [of ?m2p ?match "None :: unit option" ?events "''x''" "''a.ts''"
                 ?entries "\<lparr>textDocument = ''a.ts'', position = (0, 0)\<rparr>"]
  note c = registry_emissions
             [of ?m2p ?match "None :: unit option" ?events "''x''" "''b.ts''"
                 ?entries "\<lparr>textDocument = ''b.ts'', position = (0, 0)\<rparr>"]
  have 1: "values_of (getLocationsAndProviders ?m2p ?match (None :: unit option) ?events)
           = [\<lparr>locations = None, hasProviders = False\<rparr>]"
    using a by (simp add: combineLatest2_def)
  have 2: "hasProviders (compose ?m2p ?match (None :: unit option) (?entries, ''a.ts''))"
    using b by simp
  have 3: "\<not> hasProviders (compose ?m2p ?match (None :: unit option) (?entries, ''b.ts''))"
    using c by simp
  have 4: "Error ''x'' \<notin> set (getLocationsAndProviders ?m2p ?match (None :: unit option) ?events)"
    using a by auto
  show ?thesis using 1 2 3 4 by simp
qed

section \<open>confdb: reading and writing the configuration\<close>

lemma SiteGetLatest_shape:
  "SiteGetLatest e d = get_latest_of e typeSite (defaultSiteConfig e) d"
  by (simp add: SiteGetLatest_def get_latest_of_def)

lemma CriticalGetLatest_shape:
  "CriticalGetLatest e d = get_latest_of e typeCritical (defaultCriticalConfig e) d"
  by (simp add: CriticalGetLatest_def get_latest_of_def)

lemma SiteCreateIfUpToDate_shape:
  "SiteCreateIfUpToDate e lastID contents d =
     create_if_up_to_date_of e typeSite (defaultSiteConfig e) lastID contents d"
  by (simp add: SiteCreateIfUpToDate_def create_if_up_to_date_of_def)

lemma CriticalCreateIfUpToDate_shape:
  "CriticalCreateIfUpToDate e lastID contents d =
     create_if_up_to_date_of e typeCritical (defaultCriticalConfig e) lastID contents d"
  by (simp add: CriticalCreateIfUpToDate_def create_if_up_to_date_of_def)

lemma no_fault_drop: "True \<notin> set fs \<Longrightarrow> True \<notin> set (drop n fs)"
  by (meson in_set_dropD)

lemma fault_ok:
  "True \<notin> set (faults d) \<Longrightarrow> fault d = (False, d\<lparr>faults := drop 1 (faults d)\<rparr>)"
  by (cases "faults d") (simp_all add: fault_def drop_Suc)

lemma length_query_latest: "length (query_latest t table) \<le> 1"
  by (simp add: query_latest_def)

lemma getLatest_ok:
  assumes "True \<notin> set (faults d)"
  shows "getLatest t d =
     (Inr (case query_latest t (rows d) of [] \<Rightarrow> None | l # _ \<Rightarrow> Some l),
      d\<lparr>faults := drop 2 (faults d)\<rparr>)"
proof -
  have 1: "fault d = (False, d\<lparr>faults := drop 1 (faults d)\<rparr>)"
    using assms by (rule fault_ok)
  have 2: "fault (d\<lparr>faults := drop 1 (faults d)\<rparr>) = (False, d\<lparr>faults := drop 2 (faults d)\<rparr>)"
    using fault_ok[of "d\<lparr>faults := drop 1 (faults d)\<rparr>"] no_fault_drop[OF assms, of 1]
    by (simp add: eval_nat_numeral)
  show ?thesis
  proof (cases "query_latest t (rows d)")
    case Nil
    then show ?thesis using 1 2 by (simp add: getLatest_def)
  next
    case (Cons l ls)
    then have "ls = []" using length_query_latest[of t "rows d"] by simp
    then show ?thesis using 1 2 Cons by (simp add: getLatest_def)
  qed
qed

lemma insert_config_ok:
  assumes "True \<notin> set (faults d)"
  shows "insert_config t contents d =
     (Inr \<lparr>ID = nextID d, Type = [], Contents = contents, CreatedAt = clock d, UpdatedAt = clock d\<rparr>,
      d\<lparr>rows := rows d @ [\<lparr>ID = nextID d, Type = t, Contents = contents,
                              CreatedAt = clock d, UpdatedAt = clock d\<rparr>],
        nextID := nextID d + 1, faults := drop 1 (faults d)\<rparr>)"
  using fault_ok[OF assms] by (simp add: insert_config_def)

lemma query_latest_none:
  "\<forall>r \<in> set table. Type r \<noteq> t \<Longrightarrow> query_latest t table = []"
  by (simp add: query_latest_def filter_empty_conv)

lemma query_latest_some:
  assumes "r \<in> set table" "Type r = t"
  shows "\<exists>l. query_latest t table = [l] \<and> l \<in> set table \<and> Type l = t"
proof -
  have "r \<in> set (rev (sort_key ID (filter (\<lambda>r. Type r = t) table)))"
    using assms by simp
  then obtain l ls where x: "rev (sort_key ID (filter (\<lambda>r. Type r = t) table)) = l # ls"
    by (cases "rev (sort_key ID (filter (\<lambda>r. Type r = t) table))") auto
  then have "l \<in> set (rev (sort_key ID (filter (\<lambda>r. Type r = t) table)))"
    by simp
  then have "l \<in> set table \<and> Type l = t" by simp
  moreover have "query_latest t table = [l]" using x by (simp add: query_latest_def)
  ultimately show ?thesis by blast
qed

lemma query_latest_first_insert:
  "\<forall>r \<in> set table. Type r \<noteq> t \<Longrightarrow> Type new = t \<Longrightarrow> query_latest t (table @ [new]) = [new]"
  by (simp add: query_latest_def filter_empty_conv)

lemma createIfUpToDate_stale:
  assumes "True \<notin> set (faults d)" "jsonx_Parse e contents = 0"
    "query_latest t (rows d) = [l]" "lastID = None \<or> lastID \<noteq> Some (ID l)"
  shows "createIfUpToDate e t lastID contents d = (Inr l, d\<lparr>faults := drop 2 (faults d)\<rparr>)"
  using assms getLatest_ok[OF assms(1), of t]
  by (cases lastID) (auto simp: createIfUpToDate_def)

lemma createIfUpToDate_first:
  assumes "True \<notin> set (faults d)" "jsonx_Parse e contents = 0" "query_latest t (rows d) = []"
  shows "createIfUpToDate e t lastID contents d =
     (Inr \<lparr>ID = nextID d, Type = [], Contents = contents, CreatedAt = clock d, UpdatedAt = clock d\<rparr>,
      d\<lparr>rows := rows d @ [\<lparr>ID = nextID d, Type = t, Contents = contents,
                              CreatedAt = clock d, UpdatedAt = clock d\<rparr>],
        nextID := nextID d + 1, faults := drop 3 (faults d)\<rparr>)"
proof -
  have n: "True \<notin> set (faults (d\<lparr>faults := drop 2 (faults d)\<rparr>))"
    using no_fault_drop[OF assms(1), of 2] by simp
  show ?thesis
    using assms getLatest_ok[OF assms(1), of t] insert_config_ok[OF n, of t contents]
    by (simp add: createIfUpToDate_def eval_nat_numeral)
qed

lemma addDefault_existing:
  assumes "True \<notin> set (faults d)" "query_latest t (rows d) = [l]"
  shows "addDefault e t contents d = (Inr None, d\<lparr>faults := drop 2 (faults d)\<rparr>)"
  using assms getLatest_ok[OF assms(1), of t] by (simp add: addDefault_def eval_nat_numeral)

lemma addDefault_first:
  assumes "True \<notin> set (faults d)" "jsonx_Parse e contents = 0" "query_latest t (rows d) = []"
  shows "addDefault e t contents d =
     (Inr (Some (nextID d)),
      d\<lparr>rows := rows d @ [\<lparr>ID = nextID d, Type = t, Contents = contents,
                              CreatedAt = clock d, UpdatedAt = clock d\<rparr>],
        nextID := nextID d + 1, faults := drop 5 (faults d)\<rparr>)"
proof -
  have n: "True \<notin> set (faults (d\<lparr>faults := drop 2 (faults d)\<rparr>))"
    using no_fault_drop[OF assms(1), of 2] by simp
  have q: "query_latest t (rows (d\<lparr>faults := drop 2 (faults d)\<rparr>)) = []"
    using assms(3) by simp
  show ?thesis
    using assms getLatest_ok[OF assms(1), of t]
      createIfUpToDate_first[OF n assms(2) q, of None]
    by (simp add: addDefault_def eval_nat_numeral)
qed

lemma newTransaction_ok:
  "True \<notin> set (faults d) \<Longrightarrow>
     newTransaction d = (Inr (rows d), d\<lparr>faults := drop 1 (faults d)\<rparr>)"
  using fault_ok[of d] by (simp add: newTransaction_def)

lemma done_tx_ok:
  "True \<notin> set (faults d) \<Longrightarrow> done_tx begun (r, d) = (r, d\<lparr>faults := drop 1 (faults d)\<rparr>)"
  using fault_ok[of d] by (simp add: done_tx_def)

lemma get_latest_of_first:
  assumes "True \<notin> set (faults d)" "jsonx_Parse e contents = 0"
    "\<forall>r \<in> set (rows d). Type r \<noteq> t"
  shows "get_latest_of e t contents d =
     (Inr (Some \<lparr>ID = nextID d, Type = t, Contents = contents,
                  CreatedAt = clock d, UpdatedAt = clock d\<rparr>),
      d\<lparr>rows := rows d @ [\<lparr>ID = nextID d, Type = t, Contents = contents,
                              CreatedAt = clock d, UpdatedAt = clock d\<rparr>],
        nextID := nextID d + 1, faults := drop 9 (faults d)\<rparr>)"
proof -
  let ?new = "\<lparr>ID = nextID d, Type = t, Contents = contents,
               CreatedAt = clock d, UpdatedAt = clock d\<rparr>"
  let ?d1 = "d\<lparr>faults := drop 1 (faults d)\<rparr>"
  let ?d2 = "d\<lparr>rows := rows d @ [?new], nextID := nextID d + 1, faults := drop 6 (faults d)\<rparr>"
  have n1: "True \<notin> set (faults ?d1)"
    using no_fault_drop[OF assms(1), of 1] by simp
  have q1: "query_latest t (rows ?d1) = []"
    using query_latest_none[OF assms(3)] by simp
  have a: "addDefault e t contents ?d1 = (Inr (Some (nextID d)), ?d2)"
    using addDefault_first[OF n1 assms(2) q1] by (simp add: eval_nat_numeral)
  have n2: "True \<notin> set (faults ?d2)"
    using no_fault_drop[OF assms(1), of 6] by simp
  have q2: "query_latest t (rows ?d2) = [?new]"
    using query_latest_first_insert[OF assms(3), of ?new] by simp
  have g: "getLatest t ?d2 = (Inr (Some ?new), ?d2\<lparr>faults := drop 2 (faults ?d2)\<rparr>)"
    using getLatest_ok[OF n2, of t] q2 by (simp add: eval_nat_numeral)
  have n3: "True \<notin> set (faults (?d2\<lparr>faults := drop 2 (faults ?d2)\<rparr>))"
    using no_fault_drop[OF assms(1), of 8] by simp
  show ?thesis
    using newTransaction_ok[OF assms(1)] a g done_tx_ok[OF n3]
    by (simp add: get_latest_of_def eval_nat_numeral)
qed

lemma get_latest_of_existing:
  assumes "True \<notin> set (faults d)" "query_latest t (rows d) = [l]"
  shows "get_latest_of e t contents d = (Inr (Some l), d\<lparr>faults := drop 6 (faults d)\<rparr>)"
proof -
  let ?d1 = "d\<lparr>faults := drop 1 (faults d)\<rparr>"
  let ?d2 = "d\<lparr>faults := drop 3 (faults d)\<rparr>"
  have n1: "True \<notin> set (faults ?d1)"
    using no_fault_drop[OF assms(1), of 1] by simp
  have q1: "query_latest t (rows ?d1) = [l]"
    using assms(2) by simp
  have a: "addDefault e t contents ?d1 = (Inr None, ?d2)"
    using addDefault_existing[OF n1 q1] by (simp add: eval_nat_numeral)
  have n2: "True \<notin> set (faults ?d2)"
    using no_fault_drop[OF assms(1), of 3] by simp
  have g: "getLatest t ?d2 = (Inr (Some l), d\<lparr>faults := drop 5 (faults d)\<rparr>)"
    using getLatest_ok[OF n2, of t] assms(2) by (simp add: eval_nat_numeral)
  have n3: "True \<notin> set (faults (d\<lparr>faults := drop 5 (faults d)\<rparr>))"
    using no_fault_drop[OF assms(1), of 5] by simp
  show ?thesis
    using newTransaction_ok[OF assms(1)] a g done_tx_ok[OF n3]
    by (simp add: get_latest_of_def eval_nat_numeral)
qed

lemma create_if_up_to_date_of_stale:
  assumes "True \<notin> set (faults d)" "jsonx_Parse e contents = 0"
    "query_latest t (rows d) = [l]" "lastID = None \<or> lastID \<noteq> Some (ID l)"
  shows "create_if_up_to_date_of e t defaultContents lastID contents d =
           (Inr l, d\<lparr>faults := drop 6 (faults d)\<rparr>)"
proof -
  let ?d1 = "d\<lparr>faults := drop 1 (faults d)\<rparr>"
  let ?d2 = "d\<lparr>faults := drop 3 (faults d)\<rparr>"
  have n1: "True \<notin> set (faults ?d1)"
    using no_fault_drop[OF assms(1), of 1] by simp
  have q1: "query_latest t (rows ?d1) = [l]"
    using assms(3) by simp
  have a: "addDefault e t defaultContents ?d1 = (Inr None, ?d2)"
    using addDefault_existing[OF n1 q1] by (simp add: eval_nat_numeral)
  have n2: "True \<notin> set (faults ?d2)"
    using no_fault_drop[OF assms(1), of 3] by simp
  have q2: "query_latest t (rows ?d2) = [l]"
    using assms(3) by simp
  have c: "createIfUpToDate e t lastID contents ?d2 = (Inr l, d\<lparr>faults := drop 5 (faults d)\<rparr>)"
    using createIfUpToDate_stale[OF n2 assms(2) q2 assms(4)] by (simp add: eval_nat_numeral)
  have n3: "True \<notin> set (faults (d\<lparr>faults := drop 5 (faults d)\<rparr>))"
    using no_fault_drop[OF assms(1), of 5] by simp
  show ?thesis
    using newTransaction_ok[OF assms(1)] a c done_tx_ok[OF n3]
    by (simp add: create_if_up_to_date_of_def eval_nat_numeral)
qed

lemma query_latest_cases:
  "query_latest t table = [] \<or> (\<exists>l. query_latest t table = [l])"
  using length_query_latest[of t table]
  by (cases "query_latest t table") auto

lemma createIfUpToDate_current:
  assumes "True \<notin> set (faults d)" "jsonx_Parse e contents = 0"
    "query_latest t (rows d) = [l]"
  shows "createIfUpToDate e t (Some (ID l)) contents d =
     (Inr \<lparr>ID = nextID d, Type = [], Contents = contents, CreatedAt = clock d, UpdatedAt = clock d\<rparr>,
      d\<lparr>rows := rows d @ [\<lparr>ID = nextID d, Type = t, Contents = contents,
                              CreatedAt = clock d, UpdatedAt = clock d\<rparr>],
        nextID := nextID d + 1, faults := drop 3 (faults d)\<rparr>)"
proof -
  have n: "True \<notin> set (faults (d\<lparr>faults := drop 2 (faults d)\<rparr>))"
    using no_fault_drop[OF assms(1), of 2] by simp
  show ?thesis
    using assms getLatest_ok[OF assms(1), of t] insert_config_ok[OF n, of t contents]
    by (simp add: createIfUpToDate_def eval_nat_numeral)
qed

lemma createIfUpToDate_succeeds:
  assumes "True \<notin> set (faults d)" "jsonx_Parse e contents = 0"
  shows "\<exists>c d'. createIfUpToDate e t lastID contents d = (Inr c, d') \<and> True \<notin> set (faults d')"
proof -
  consider "query_latest t (rows d) = []"
    | l where "query_latest t (rows d) = [l]" "lastID = Some (ID l)"
    | l where "query_latest t (rows d) = [l]" "lastID = None \<or> lastID \<noteq> Some (ID l)"
    using query_latest_cases[of t "rows d"] by auto
  then show ?thesis
  proof cases
    case 1
    show ?thesis
      using createIfUpToDate_first[OF assms 1, of lastID] no_fault_drop[OF assms(1), of 3]
      by simp
  next
    case 2
    show ?thesis
      using createIfUpToDate_current[OF assms 2(1)] 2(2) no_fault_drop[OF assms(1), of 3]
      by simp
  next
    case 3
    show ?thesis
      using createIfUpToDate_stale[OF assms 3] no_fault_drop[OF assms(1), of 2]
      by simp
  qed
qed

lemma addDefault_succeeds:
  assumes "True \<notin> set (faults d)" "jsonx_Parse e contents = 0"
  shows "\<exists>i d'. addDefault e t contents d = (Inr i, d') \<and> True \<notin> set (faults d')"
proof -
  consider "query_latest t (rows d) = []" | l where "query_latest t (rows d) = [l]"
    using query_latest_cases[of t "rows d"] by auto
  then show ?thesis
  proof cases
    case 1
    show ?thesis
      using addDefault_first[OF assms 1] no_fault_drop[OF assms(1), of 5] by simp
  next
    case 2
    show ?thesis
      using addDefault_existing[OF assms(1) 2, of e contents] no_fault_drop[OF assms(1), of 2]
      by simp
  qed
qed

lemma create_if_up_to_date_of_succeeds:
  assumes "True \<notin> set (faults d)" "jsonx_Parse e contents = 0"
    "jsonx_Parse e defaultContents = 0"
  shows "\<exists>c. fst (create_if_up_to_date_of e t defaultContents lastID contents d) = Inr c"
proof -
  have n1: "True \<notin> set (faults (d\<lparr>faults := drop 1 (faults d)\<rparr>))"
    using no_fault_drop[OF assms(1), of 1] by simp
  obtain i d2 where a: "addDefault e t defaultContents (d\<lparr>faults := drop 1 (faults d)\<rparr>) = (Inr i, d2)"
    and n2: "True \<notin> set (faults d2)"
    using addDefault_succeeds[OF n1 assms(3), of t] by blast
  obtain c d3 where c: "createIfUpToDate e t (case i of None \<Rightarrow> lastID | Some j \<Rightarrow> Some j)
                          contents d2 = (Inr c, d3)"
    and n3: "True \<notin> set (faults d3)"
    using createIfUpToDate_succeeds[OF n2 assms(2)] by blast
  show ?thesis
    using newTransaction_ok[OF assms(1)] a c
      done_tx_ok[OF n3, of "rows d" "Inr c :: err + Config"]
    by (simp add: create_if_up_to_date_of_def)
qed

lemma query_latest_greatest:
  assumes "query_latest t table = [l]"
  shows "l \<in> set table \<and> Type l = t \<and> (\<forall>r \<in> set table. Type r = t \<longrightarrow> ID r \<le> ID l)"
proof -
  obtain ls where x: "rev (sort_key ID (filter (\<lambda>r. Type r = t) table)) = l # ls"
    using assms
    by (cases "rev (sort_key ID (filter (\<lambda>r. Type r = t) table))")
       (simp_all add: query_latest_def)
  then have y: "sort_key ID (filter (\<lambda>r. Type r = t) table) = rev ls @ [l]"
    by (simp add: rev_swap)
  have "sorted (map ID (sort_key ID (filter (\<lambda>r. Type r = t) table)))"
    by (rule sorted_sort_key)
  then have le: "\<forall>r \<in> set ls. ID r \<le> ID l"
    using y by (simp add: sorted_append)
  have s: "set (filter (\<lambda>r. Type r = t) table) = insert l (set ls)"
    using arg_cong[OF y, of set] by simp
  then have "l \<in> set table \<and> Type l = t" by auto
  moreover have "\<forall>r \<in> set table. Type r = t \<longrightarrow> ID r \<le> ID l"
  proof (intro ballI impI)
    fix r assume "r \<in> set table" "Type r = t"
    then have "r \<in> insert l (set ls)" using s by auto
    then show "ID r \<le> ID l" using le by auto
  qed
  ultimately show ?thesis by simp
qed

lemma query_latest_is_latest:
  assumes "is_latest t table l"
  shows "query_latest t table = [l]"
proof -
  have l: "l \<in> set table" "Type l = t"
    and others: "\<forall>r \<in> set table. r = l \<or> Type r \<noteq> t \<or> ID r < ID l"
    using assms by (simp_all add: is_latest_def list_all_iff)
  obtain l' where q: "query_latest t table = [l']"
    using query_latest_some[OF l] by blast
  have g: "l' \<in> set table \<and> Type l' = t \<and> ID l \<le> ID l'"
    using query_latest_greatest[OF q] l by simp
  then have "l' = l" using others by force
  then show ?thesis using q by simp
qed

lemma fault_frame:
  "\<exists>b d1. fault d = (b, d1) \<and> rows d1 = rows d \<and> nextID d1 = nextID d"
  by (simp add: fault_def)

lemma getLatest_frame:
  "\<exists>r d1. getLatest t d = (r, d1) \<and> rows d1 = rows d \<and> nextID d1 = nextID d \<and>
     (r = Inl DatabaseError \<or>
      r = Inr (case query_latest t (rows d) of [] \<Rightarrow> None | l # _ \<Rightarrow> Some l))"
proof -
  obtain b1 d1 where f1: "fault d = (b1, d1)" "rows d1 = rows d" "nextID d1 = nextID d"
    using fault_frame[of d] by blast
  obtain b2 d2 where f2: "fault d1 = (b2, d2)" "rows d2 = rows d1" "nextID d2 = nextID d1"
    using fault_frame[of d1] by blast
  show ?thesis
  proof (cases b1)
    case True
    then show ?thesis using f1 by (simp add: getLatest_def)
  next
    case False
    show ?thesis
    proof (cases b2)
      case True
      then show ?thesis using f1 f2 \<open>\<not> b1\<close> by (simp add: getLatest_def)
    next
      case False
      show ?thesis
      proof (cases "query_latest t (rows d)")
        case Nil
        then show ?thesis using f1 f2 \<open>\<not> b1\<close> \<open>\<not> b2\<close> by (simp add: getLatest_def)
      next
        case (Cons l ls)
        then have "ls = []" using length_query_latest[of t "rows d"] by simp
        then show ?thesis using Cons f1 f2 \<open>\<not> b1\<close> \<open>\<not> b2\<close> by (simp add: getLatest_def)
      qed
    qed
  qed
qed

lemma addDefault_frame:
  assumes "query_latest t (rows d) = [l]"
  shows "\<exists>r d1. addDefault e t contents d = (r, d1) \<and> rows d1 = rows d \<and> nextID d1 = nextID d"
proof -
  obtain r d1 where g: "getLatest t d = (r, d1)" "rows d1 = rows d" "nextID d1 = nextID d"
    "r = Inl DatabaseError \<or> r = Inr (Some l)"
    using getLatest_frame[of t d] assms by auto
  from g(4) show ?thesis
  proof
    assume "r = Inl DatabaseError"
    then show ?thesis using g by (simp add: addDefault_def)
  next
    assume "r = Inr (Some l)"
    then show ?thesis using g by (simp add: addDefault_def)
  qed
qed

lemma done_tx_frame:
  "\<exists>d1. done_tx begun (r, d) = (r, d1) \<and> (rows d1 = rows d \<or> rows d1 = begun) \<and>
     nextID d1 = nextID d"
proof -
  obtain b d1 where f: "fault d = (b, d1)" "rows d1 = rows d" "nextID d1 = nextID d"
    using fault_frame[of d] by blast
  show ?thesis using f by (cases b) (simp_all add: done_tx_def)
qed

lemma get_latest_of_frame:
  assumes "query_latest t (rows d) = [l]"
  shows "rows (snd (get_latest_of e t contents d)) = rows d \<and>
         nextID (snd (get_latest_of e t contents d)) = nextID d"
proof -
  obtain b d1 where f: "fault d = (b, d1)" "rows d1 = rows d" "nextID d1 = nextID d"
    using fault_frame[of d] by blast
  show ?thesis
  proof (cases b)
    case True
    then show ?thesis using f by (simp add: get_latest_of_def newTransaction_def)
  next
    case False
    then have nt: "newTransaction d = (Inr (rows d), d1)"
      using f by (simp add: newTransaction_def)
    obtain r d2 where a: "addDefault e t contents d1 = (r, d2)" "rows d2 = rows d"
      "nextID d2 = nextID d"
      using addDefault_frame[of t d1 l e contents] assms f by auto
    show ?thesis
    proof (cases r)
      case (Inl er)
      obtain d3 where dn: "done_tx (rows d) (Inl er :: err + Config option, d2) = (Inl er, d3)"
        "rows d3 = rows d2 \<or> rows d3 = rows d" "nextID d3 = nextID d2"
        using done_tx_frame[of "rows d" "Inl er :: err + Config option" d2] by blast
      then show ?thesis using nt a Inl by (auto simp: get_latest_of_def)
    next
      case (Inr i)
      obtain r3 d3 where g: "getLatest t d2 = (r3, d3)" "rows d3 = rows d2"
        "nextID d3 = nextID d2"
        using getLatest_frame[of t d2] by blast
      obtain d4 where dn: "done_tx (rows d) (r3, d3) = (r3, d4)"
        "rows d4 = rows d3 \<or> rows d4 = rows d" "nextID d4 = nextID d3"
        using done_tx_frame[of "rows d" r3 d3] by blast
      then show ?thesis using nt a Inr g by (auto simp: get_latest_of_def)
    qed
  qed
qed

text \<open>
  Claim C9, as stated, fails when the configured default is not valid JSON, and when
  a database operation fails: nothing is inserted and the call returns an error. The
  parser stands for \<^verbatim>\<open>jsonx.Parse\<close> on the unterminated document \<^verbatim>\<open>{\<close>.
\<close>

theorem invalid_default_counterexample:
  "SiteGetLatest
     \<lparr>jsonx_Parse = (\<lambda>contents. if contents = ''{'' then 1 else 0),
      defaultCriticalConfig = ''{'', defaultSiteConfig = ''{''\<rparr>
     \<lparr>rows = [], nextID = 1, clock = 0, faults = []\<rparr>
   = (Inl (InvalidJSON ''{''), \<lparr>rows = [], nextID = 1, clock = 0, faults = []\<rparr>)
   \<and> SiteGetLatest
     \<lparr>jsonx_Parse = (\<lambda>contents. if contents = ''{'' then 1 else 0),
      defaultCriticalConfig = ''{}'', defaultSiteConfig = ''{}''\<rparr>
     \<lparr>rows = [], nextID = 1, clock = 0, faults = [False, False, False, False, False, True]\<rparr>
   = (Inl DatabaseError, \<lparr>rows = [], nextID = 1, clock = 0, faults = []\<rparr>)"
  by (simp add: SiteGetLatest_def newTransaction_def done_tx_def
      addDefault_def createIfUpToDate_def getLatest_def query_latest_def fault_def
      insert_config_def typeSite_def)

text \<open>
  Claim C9, amended. If no row of the type exists, the configured default is valid
  JSON and no database operation fails, \<^verbatim>\<open>SiteGetLatest\<close> and
  \<^verbatim>\<open>CriticalGetLatest\<close> insert the default as a new row and return that row. If a
  row of the type exists, they insert nothing and leave the table and the \<^verbatim>\<open>id\<close>
  sequence as they were, whether or not a database operation fails; and when none
  fails they return the row of the type with the greatest id.
\<close>

theorem get_latest_inserts_default:
  "(True \<notin> set (faults d) \<and> (\<forall>r \<in> set (rows d). Type r \<noteq> typeSite) \<and>
      jsonx_Parse e (defaultSiteConfig e) = 0 \<longrightarrow>
        fst (SiteGetLatest e d) =
          Inr (Some \<lparr>ID = nextID d, Type = typeSite, Contents = defaultSiteConfig e,
                     CreatedAt = clock d, UpdatedAt = clock d\<rparr>) \<and>
        rows (snd (SiteGetLatest e d)) =
          rows d @ [\<lparr>ID = nextID d, Type = typeSite, Contents = defaultSiteConfig e,
                     CreatedAt = clock d, UpdatedAt = clock d\<rparr>])
   \<and> (True \<notin> set (faults d) \<and> (\<forall>r \<in> set (rows d). Type r \<noteq> typeCritical) \<and>
      jsonx_Parse e (defaultCriticalConfig e) = 0 \<longrightarrow>
        fst (CriticalGetLatest e d) =
          Inr (Some \<lparr>ID = nextID d, Type = typeCritical, Contents = defaultCriticalConfig e,
                     CreatedAt = clock d, UpdatedAt = clock d\<rparr>) \<and>
        rows (snd (CriticalGetLatest e d)) =
          rows d @ [\<lparr>ID = nextID d, Type = typeCritical, Contents = defaultCriticalConfig e,
                     CreatedAt = clock d, UpdatedAt = clock d\<rparr>])
   \<and> ((\<exists>r \<in> set (rows d). Type r = typeSite) \<longrightarrow>
        rows (snd (SiteGetLatest e d)) = rows d \<and>
        nextID (snd (SiteGetLatest e d)) = nextID d)
   \<and> ((\<exists>r \<in> set (rows d). Type r = typeCritical) \<longrightarrow>
        rows (snd (CriticalGetLatest e d)) = rows d \<and>
        nextID (snd (CriticalGetLatest e d)) = nextID d)
   \<and> (True \<notin> set (faults d) \<and> (\<exists>r \<in> set (rows d). Type r = typeSite) \<longrightarrow>
        (\<exists>l \<in> set (rows d). Type l = typeSite \<and>
           (\<forall>r \<in> set (rows d). Type r = typeSite \<longrightarrow> ID r \<le> ID l) \<and>
           fst (SiteGetLatest e d) = Inr (Some l)))
   \<and> (True \<notin> set (faults d) \<and> (\<exists>r \<in> set (rows d). Type r = typeCritical) \<longrightarrow>
        (\<exists>l \<in> set (rows d). Type l = typeCritical \<and>
           (\<forall>r \<in> set (rows d). Type r = typeCritical \<longrightarrow> ID r \<le> ID l) \<and>
           fst (CriticalGetLatest e d) = Inr (Some l)))"
proof -
  have first: "fst (get_latest_of e t contents d) =
          Inr (Some \<lparr>ID = nextID d, Type = t, Contents = contents,
                     CreatedAt = clock d, UpdatedAt = clock d\<rparr>) \<and>
        rows (snd (get_latest_of e t contents d)) =
          rows d @ [\<lparr>ID = nextID d, Type = t, Contents = contents,
                     CreatedAt = clock d, UpdatedAt = clock d\<rparr>]"
    if nf: "True \<notin> set (faults d)" and none: "\<forall>r \<in> set (rows d). Type r \<noteq> t"
      and valid: "jsonx_Parse e contents = 0" for t contents
    using get_latest_of_first[OF nf valid none] by simp
  have frame: "rows (snd (get_latest_of e t contents d)) = rows d \<and>
        nextID (snd (get_latest_of e t contents d)) = nextID d"
    if ex: "\<exists>r \<in> set (rows d). Type r = t" for t contents
  proof -
    obtain l where l: "query_latest t (rows d) = [l]"
      using ex query_latest_some[of _ "rows d" t] by blast
    show ?thesis by (rule get_latest_of_frame[OF l])
  qed
  have existing: "\<exists>l \<in> set (rows d). Type l = t \<and>
           (\<forall>r \<in> set (rows d). Type r = t \<longrightarrow> ID r \<le> ID l) \<and>
           fst (get_latest_of e t contents d) = Inr (Some l)"
    if nf: "True \<notin> set (faults d)" and ex: "\<exists>r \<in> set (rows d). Type r = t" for t contents
  proof -
    obtain l where l: "query_latest t (rows d) = [l]"
      using ex query_latest_some[of _ "rows d" t] by blast
    have "fst (get_latest_of e t contents d) = Inr (Some l)"
      using get_latest_of_existing[OF nf l, of e contents] by simp
    then show ?thesis using query_latest_greatest[OF l] by blast
  qed
  show ?thesis
    unfolding SiteGetLatest_shape CriticalGetLatest_shape
    using first[of typeSite "defaultSiteConfig e"] first[of typeCritical "defaultCriticalConfig e"]
      frame[of typeSite "defaultSiteConfig e"] frame[of typeCritical "defaultCriticalConfig e"]
      existing[of typeSite "defaultSiteConfig e"]
      existing[of typeCritical "defaultCriticalConfig e"]
    by blast
qed

theorem get_latest_witness:
  "True \<notin> set (faults \<lparr>rows = [], nextID = 1, clock = 7, faults = [False]\<rparr>)
   \<and> fst (SiteGetLatest
        \<lparr>jsonx_Parse = (\<lambda>contents. if contents = ''{'' then 1 else 0),
         defaultCriticalConfig = ''{}'', defaultSiteConfig = ''{}''\<rparr>
        \<lparr>rows = [], nextID = 1, clock = 7, faults = [False]\<rparr>)
      = Inr (Some \<lparr>ID = 1, Type = ''site'', Contents = ''{}'', CreatedAt = 7, UpdatedAt = 7\<rparr>)
   \<and> rows (snd (SiteGetLatest
        \<lparr>jsonx_Parse = (\<lambda>contents. if contents = ''{'' then 1 else 0),
         defaultCriticalConfig = ''{}'', defaultSiteConfig = ''{}''\<rparr>
        \<lparr>rows = [], nextID = 1, clock = 7, faults = [False]\<rparr>))
      = [\<lparr>ID = 1, Type = ''site'', Contents = ''{}'', CreatedAt = 7, UpdatedAt = 7\<rparr>]
   \<and> fst (SiteGetLatest
        \<lparr>jsonx_Parse = (\<lambda>contents. if contents = ''{'' then 1 else 0),
         defaultCriticalConfig = ''{}'', defaultSiteConfig = ''{}''\<rparr>
        \<lparr>rows = [\<lparr>ID = 1, Type = ''site'', Contents = ''{}'', CreatedAt = 7, UpdatedAt = 7\<rparr>,
                 \<lparr>ID = 2, Type = ''site'', Contents = ''{ }'', CreatedAt = 8, UpdatedAt = 8\<rparr>],
         nextID = 3, clock = 9, faults = []\<rparr>)
      = Inr (Some \<lparr>ID = 2, Type = ''site'', Contents = ''{ }'', CreatedAt = 8, UpdatedAt = 8\<rparr>)
   \<and> rows (snd (SiteGetLatest
        \<lparr>jsonx_Parse = (\<lambda>contents. if contents = ''{'' then 1 else 0),
         defaultCriticalConfig = ''{}'', defaultSiteConfig = ''{}''\<rparr>
        \<lparr>rows = [\<lparr>ID = 1, Type = ''site'', Contents = ''{}'', CreatedAt = 7, UpdatedAt = 7\<rparr>,
                 \<lparr>ID = 2, Type = ''site'', Contents = ''{ }'', CreatedAt = 8, UpdatedAt = 8\<rparr>],
         nextID = 3, clock = 9, faults = []\<rparr>))
      = [\<lparr>ID = 1, Type = ''site'', Contents = ''{}'', CreatedAt = 7, UpdatedAt = 7\<rparr>,
         \<lparr>ID = 2, Type = ''site'', Contents = ''{ }'', CreatedAt = 8, UpdatedAt = 8\<rparr>]
   \<and> rows (snd (SiteGetLatest
        \<lparr>jsonx_Parse = (\<lambda>contents. if contents = ''{'' then 1 else 0),
         defaultCriticalConfig = ''{}'', defaultSiteConfig = ''{}''\<rparr>
        \<lparr>rows = [\<lparr>ID = 1, Type = ''site'', Contents = ''{}'', CreatedAt = 7, UpdatedAt = 7\<rparr>,
                 \<lparr>ID = 2, Type = ''site'', Contents = ''{ }'', CreatedAt = 8, UpdatedAt = 8\<rparr>],
         nextID = 3, clock = 9, faults = [False, True]\<rparr>))
      = [\<lparr>ID = 1, Type = ''site'', Contents = ''{}'', CreatedAt = 7, UpdatedAt = 7\<rparr>,
         \<lparr>ID = 2, Type = ''site'', Contents = ''{ }'', CreatedAt = 8, UpdatedAt = 8\<rparr>]"
proof -
  let ?e = "\<lparr>jsonx_Parse = (\<lambda>contents. if contents = ''{'' then 1 else 0),
         defaultCriticalConfig = ''{}'', defaultSiteConfig = ''{}''\<rparr>"
  let ?d0 = "\<lparr>rows = [], nextID = 1, clock = 7, faults = [False]\<rparr>"
  let ?r1 = "\<lparr>ID = 1, Type = ''site'', Contents = ''{}'', CreatedAt = 7, UpdatedAt = 7\<rparr>"
  let ?r2 = "\<lparr>ID = 2, Type = ''site'', Contents = ''{ }'', CreatedAt = 8, UpdatedAt = 8\<rparr>"
  let ?d1 = "\<lparr>rows = [?r1, ?r2], nextID = 3, clock = 9, faults = []\<rparr>"
  let ?d2 = "\<lparr>rows = [?r1, ?r2], nextID = 3, clock = 9, faults = [False, True]\<rparr>"
  note t0 = get_latest_inserts_default[of ?d0 ?e]
  note t1 = get_latest_inserts_default[of ?d1 ?e]
  note t2 = get_latest_inserts_default[of ?d2 ?e]
  have a: "fst (SiteGetLatest ?e ?d0) = Inr (Some ?r1) \<and> rows (snd (SiteGetLatest ?e ?d0)) = [?r1]"
    using t0[THEN conjunct1] by (simp add: typeSite_def)
  have b: "rows (snd (SiteGetLatest ?e ?d1)) = [?r1, ?r2]"
    using t1[THEN conjunct2, THEN conjunct2, THEN conjunct1] by (simp add: typeSite_def)
  have c: "rows (snd (SiteGetLatest ?e ?d2)) = [?r1, ?r2]"
    using t2[THEN conjunct2, THEN conjunct2, THEN conjunct1] by (simp add: typeSite_def)
  have "\<exists>l \<in> set [?r1, ?r2]. Type l = typeSite \<and>
           (\<forall>r \<in> set [?r1, ?r2]. Type r = typeSite \<longrightarrow> ID r \<le> ID l) \<and>
           fst (SiteGetLatest ?e ?d1) = Inr (Some l)"
    using t1[THEN conjunct2, THEN conjunct2, THEN conjunct2, THEN conjunct2, THEN conjunct1]
    by (simp add: typeSite_def)
  then have g: "fst (SiteGetLatest ?e ?d1) = Inr (Some ?r2)"
    by (auto simp: typeSite_def)
  show ?thesis using a b c g by simp
qed

text \<open>
  Claim C10. For \<^verbatim>\<open>SiteCreateIfUpToDate\<close> and \<^verbatim>\<open>CriticalCreateIfUpToDate\<close>
  with valid JSON contents, when no database operation fails, \<open>l\<close> is the latest
  config of the type (the row of the type with the greatest id) and \<open>lastID\<close> is nil
  or differs from the ID of \<open>l\<close>: the call returns \<open>l\<close> and no error, and the table
  and the \<^verbatim>\<open>id\<close> sequence are as they were. A call returns an error only when a
  database operation fails or the contents or the configured default are not valid
  JSON.
\<close>

theorem stale_lastID_returns_latest:
  "(True \<notin> set (faults d) \<and> jsonx_Parse e contents = 0 \<and>
      is_latest typeSite (rows d) l \<and> (lastID = None \<or> lastID \<noteq> Some (ID l)) \<longrightarrow>
        fst (SiteCreateIfUpToDate e lastID contents d) = Inr l \<and>
        rows (snd (SiteCreateIfUpToDate e lastID contents d)) = rows d \<and>
        nextID (snd (SiteCreateIfUpToDate e lastID contents d)) = nextID d)
   \<and> (True \<notin> set (faults d) \<and> jsonx_Parse e contents = 0 \<and>
      is_latest typeCritical (rows d) l \<and> (lastID = None \<or> lastID \<noteq> Some (ID l)) \<longrightarrow>
        fst (CriticalCreateIfUpToDate e lastID contents d) = Inr l \<and>
        rows (snd (CriticalCreateIfUpToDate e lastID contents d)) = rows d \<and>
        nextID (snd (CriticalCreateIfUpToDate e lastID contents d)) = nextID d)
   \<and> (fst (SiteCreateIfUpToDate e lastID contents d) = Inl er \<longrightarrow>
        True \<in> set (faults d) \<or> 0 < jsonx_Parse e contents \<or>
        0 < jsonx_Parse e (defaultSiteConfig e))
   \<and> (fst (CriticalCreateIfUpToDate e lastID contents d) = Inl er \<longrightarrow>
        True \<in> set (faults d) \<or> 0 < jsonx_Parse e contents \<or>
        0 < jsonx_Parse e (defaultCriticalConfig e))"
proof -
  have stale: "fst (create_if_up_to_date_of e t dc lastID contents d) = Inr l \<and>
        rows (snd (create_if_up_to_date_of e t dc lastID contents d)) = rows d \<and>
        nextID (snd (create_if_up_to_date_of e t dc lastID contents d)) = nextID d"
    if nf: "True \<notin> set (faults d)" and valid: "jsonx_Parse e contents = 0"
      and latest: "is_latest t (rows d) l"
      and old: "lastID = None \<or> lastID \<noteq> Some (ID l)" for t dc
    using create_if_up_to_date_of_stale[OF nf valid query_latest_is_latest[OF latest] old, of dc]
    by simp
  have err: "True \<in> set (faults d) \<or> 0 < jsonx_Parse e contents \<or> 0 < jsonx_Parse e dc"
    if failed: "fst (create_if_up_to_date_of e t dc lastID contents d) = Inl er" for t dc
  proof (rule ccontr)
    assume "\<not> (True \<in> set (faults d) \<or> 0 < jsonx_Parse e contents \<or> 0 < jsonx_Parse e dc)"
    then have "True \<notin> set (faults d)" "jsonx_Parse e contents = 0" "jsonx_Parse e dc = 0"
      by simp_all
    then obtain c where "fst (create_if_up_to_date_of e t dc lastID contents d) = Inr c"
      using create_if_up_to_date_of_succeeds[of d e contents dc t lastID] by blast
    then show False using failed by simp
  qed
  show ?thesis
    unfolding SiteCreateIfUpToDate_shape CriticalCreateIfUpToDate_shape
    using stale[of typeSite "defaultSiteConfig e"] stale[of typeCritical "defaultCriticalConfig e"]
      err[of typeSite "defaultSiteConfig e"] err[of typeCritical "defaultCriticalConfig e"]
    by blast
qed

theorem stale_lastID_witness:
  "True \<notin> set (faults
      \<lparr>rows = [\<lparr>ID = 3, Type = ''site'', Contents = ''{}'', CreatedAt = 6, UpdatedAt = 6\<rparr>,
               \<lparr>ID = 4, Type = ''site'', Contents = ''{ }'', CreatedAt = 7, UpdatedAt = 7\<rparr>,
               \<lparr>ID = 5, Type = ''critical'', Contents = ''{}'', CreatedAt = 7, UpdatedAt = 7\<rparr>],
       nextID = 6, clock = 8, faults = []\<rparr>)
   \<and> is_latest typeSite
       [\<lparr>ID = 3, Type = ''site'', Contents = ''{}'', CreatedAt = 6, UpdatedAt = 6\<rparr>,
        \<lparr>ID = 4, Type = ''site'', Contents = ''{ }'', CreatedAt = 7, UpdatedAt = 7\<rparr>,
        \<lparr>ID = 5, Type = ''critical'', Contents = ''{}'', CreatedAt = 7, UpdatedAt = 7\<rparr>]
       \<lparr>ID = 4, Type = ''site'', Contents = ''{ }'', CreatedAt = 7, UpdatedAt = 7\<rparr>
   \<and> fst (SiteCreateIfUpToDate
        \<lparr>jsonx_Parse = (\<lambda>contents. if contents = ''{'' then 1 else 0),
         defaultCriticalConfig = ''{}'', defaultSiteConfig = ''{}''\<rparr>
        (Some 3) ''{  }''
        \<lparr>rows = [\<lparr>ID = 3, Type = ''site'', Contents = ''{}'', CreatedAt = 6, UpdatedAt = 6\<rparr>,
                 \<lparr>ID = 4, Type = ''site'', Contents = ''{ }'', CreatedAt = 7, UpdatedAt = 7\<rparr>,
                 \<lparr>ID = 5, Type = ''critical'', Contents = ''{}'', CreatedAt = 7, UpdatedAt = 7\<rparr>],
         nextID = 6, clock = 8, faults = []\<rparr>)
      = Inr \<lparr>ID = 4, Type = ''site'', Contents = ''{ }'', CreatedAt = 7, UpdatedAt = 7\<rparr>
   \<and> rows (snd (SiteCreateIfUpToDate
        \<lparr>jsonx_Parse = (\<lambda>contents. if contents = ''{'' then 1 else 0),
         defaultCriticalConfig = ''{}'', defaultSiteConfig = ''{}''\<rparr>
        (Some 3) ''{  }''
        \<lparr>rows = [\<lparr>ID = 3, Type = ''site'', Contents = ''{}'', CreatedAt = 6, UpdatedAt = 6\<rparr>,
                 \<lparr>ID = 4, Type = ''site'', Contents = ''{ }'', CreatedAt = 7, UpdatedAt = 7\<rparr>,
                 \<lparr>ID = 5, Type = ''critical'', Contents = ''{}'', CreatedAt = 7, UpdatedAt = 7\<rparr>],
         nextID = 6, clock = 8, faults = []\<rparr>))
      = [\<lparr>ID = 3, Type = ''site'', Contents = ''{}'', CreatedAt = 6, UpdatedAt = 6\<rparr>,
         \<lparr>ID = 4, Type = ''site'', Contents = ''{ }'', CreatedAt = 7, UpdatedAt = 7\<rparr>,
         \<lparr>ID = 5, Type = ''critical'', Contents = ''{}'', CreatedAt = 7, UpdatedAt = 7\<rparr>]
   \<and> fst (SiteCreateIfUpToDate
        \<lparr>jsonx_Parse = (\<lambda>contents. if contents = ''{'' then 1 else 0),
         defaultCriticalConfig = ''{}'', defaultSiteConfig = ''{}''\<rparr>
        (Some 4) ''{''
        \<lparr>rows = [\<lparr>ID = 3, Type = ''site'', Contents = ''{}'', CreatedAt = 6, UpdatedAt = 6\<rparr>,
                 \<lparr>ID = 4, Type = ''site'', Contents = ''{ }'', CreatedAt = 7, UpdatedAt = 7\<rparr>,
                 \<lparr>ID = 5, Type = ''critical'', Contents = ''{}'', CreatedAt = 7, UpdatedAt = 7\<rparr>],
         nextID = 6, clock = 8, faults = []\<rparr>)
      = Inl (InvalidJSON ''{'')
   \<and> 0 < jsonx_Parse \<lparr>jsonx_Parse = (\<lambda>contents. if contents = ''{'' then 1 else 0),
         defaultCriticalConfig = ''{}'', defaultSiteConfig = ''{}''\<rparr> ''{''"
proof -
  let ?e = "\<lparr>jsonx_Parse = (\<lambda>contents. if contents = ''{'' then 1 else 0),
         defaultCriticalConfig = ''{}'', defaultSiteConfig = ''{}''\<rparr>"
  let ?r3 = "\<lparr>ID = 3, Type = ''site'', Contents = ''{}'', CreatedAt = 6, UpdatedAt = 6\<rparr>"
  let ?r4 = "\<lparr>ID = 4, Type = ''site'', Contents = ''{ }'', CreatedAt = 7, UpdatedAt = 7\<rparr>"
  let ?r5 = "\<lparr>ID = 5, Type = ''critical'', Contents = ''{}'', CreatedAt = 7, UpdatedAt = 7\<rparr>"
  let ?d = "\<lparr>rows = [?r3, ?r4, ?r5], nextID = 6, clock = 8, faults = []\<rparr>"
  have q: "is_latest typeSite [?r3, ?r4, ?r5] ?r4"
    by (simp add: is_latest_def typeSite_def)
  note t = stale_lastID_returns_latest[of ?d ?e "''{  }''" ?r4 "Some 3" "InvalidJSON ''{''"]
  have a: "fst (SiteCreateIfUpToDate ?e (Some 3) ''{  }'' ?d) = Inr ?r4
           \<and> rows (snd (SiteCreateIfUpToDate ?e (Some 3) ''{  }'' ?d)) = [?r3, ?r4, ?r5]"
    using t[THEN conjunct1] q by simp
  have b: "fst (SiteCreateIfUpToDate ?e (Some 4) ''{'' ?d) = Inl (InvalidJSON ''{'')"
    by (simp add: SiteCreateIfUpToDate_def newTransaction_def
        done_tx_def addDefault_def createIfUpToDate_def getLatest_def query_latest_def
        fault_def typeSite_def)
  note u = stale_lastID_returns_latest[of ?d ?e "''{''" ?r4 "Some 4" "InvalidJSON ''{''"]
  have c: "0 < jsonx_Parse ?e ''{''"
    using u[THEN conjunct2, THEN conjunct2, THEN conjunct1] b by simp
  show ?thesis using a b c q by simp
qed

end
